theory Spec2Isabelle
  imports Main "HOL-Library.Word"
begin

unbundle bit_operations_syntax

section \<open>Data model of mixer.c\<close>

text \<open>
  The channel registry of \<^verbatim>\<open>src/mixer.c\<close> as a shallow embedding. C \<^verbatim>\<open>int\<close> values are
  \<^typ>\<open>int\<close> (the volumes, counters and indices of the mixer stay far from the 32-bit
  limits), \<^verbatim>\<open>Uint64\<close> tick values are \<^typ>\<open>64 word\<close> with their wrap-around, and the
  \<^verbatim>\<open>Uint32\<close> chunk length is a \<^typ>\<open>nat\<close> (lengths below \<open>2^31\<close>, where the casts to
  \<^verbatim>\<open>int\<close> of the source keep the value). Function pointers are \<^typ>\<open>nat option\<close>,
  \<open>None\<close> being \<^verbatim>\<open>NULL\<close>. The sample bytes themselves are not modelled: a read of the
  chunk buffer by the mixing loop is an event that records the address range.
\<close>

text \<open>Modelled from the spec: the header \<^verbatim>\<open>SDL_mixer.h\<close> is not among the sources. \<open>MAX\<close>
  is the upper end of every volume; 128 is the value of \<^verbatim>\<open>MIX_MAX_VOLUME\<close>.\<close>
definition MIX_MAX_VOLUME :: int where
  "MIX_MAX_VOLUME = 128"

text \<open>Modelled from the spec: the index that addresses the global post-mix stage
  (\<^verbatim>\<open>MIX_CHANNEL_POST\<close> of the header).\<close>
definition MIX_CHANNEL_POST :: int where
  "MIX_CHANNEL_POST = - 2"

text \<open>Modelled from the spec: the fade state \<open>NONE | FADING_IN | FADING_OUT\<close>
  (\<^verbatim>\<open>Mix_Fading\<close> of the header).\<close>
datatype Mix_Fading = MIX_NO_FADING | MIX_FADING_OUT | MIX_FADING_IN

text \<open>Modelled from the spec: a chunk is a PCM buffer (\<open>abuf\<close>, its address, and \<open>alen\<close>,
  its length in bytes) with a volume (\<^verbatim>\<open>Mix_Chunk\<close> of the header).\<close>
record Mix_Chunk =
  allocated :: int
  abuf :: int
  alen :: nat
  chunk_volume :: int

record effect_info =
  callback :: "nat option"
  done_callback :: "nat option"
  udata :: nat

record Mix_Channel =
  chunk :: "nat option"
  playing :: int
  paused :: "64 word"
  samples :: int
  volume :: int
  looping :: int
  tag :: int
  expire :: "64 word"
  start_time :: "64 word"
  fading :: Mix_Fading
  fade_volume :: int
  fade_volume_reset :: int
  fade_length :: "64 word"
  ticks_fade :: "64 word"
  effects :: "effect_info list"

record SDL_AudioSpec =
  format :: "32 word"
  channels :: int
  freq :: int

text \<open>What the outside world observes of a run: calls of the user's callbacks and the
  slices of chunk buffers handed to the effect chain and to \<^verbatim>\<open>SDL_MixAudio\<close>.\<close>
datatype event =
    ChannelFinished nat int
  | EffectDone nat int nat
  | Mixed int int int int int

text \<open>\<open>ChannelFinished f c\<close>: the channel-finished callback \<open>f\<close> is called for channel \<open>c\<close>.
  \<open>EffectDone d c u\<close>: the release callback \<open>d\<close> of an effect is called with channel \<open>c\<close>
  and user data \<open>u\<close>. \<open>Mixed c a n k v\<close>: \<open>n\<close> bytes at address \<open>a\<close> are mixed for channel
  \<open>c\<close> into the output buffer at offset \<open>k\<close>, with integer volume \<open>v\<close>.\<close>

text \<open>The global variables of the file. \<open>chunks\<close> is the heap of chunk objects, by
  address; \<open>sdl_error\<close> is the message of the last \<^verbatim>\<open>SDL_SetError\<close>. The array
  \<^verbatim>\<open>mix_channel\<close> and its length \<^verbatim>\<open>num_channels\<close> are one list.\<close>
record mixer_state =
  audio_opened :: int
  mixer :: SDL_AudioSpec
  mix_channel :: "Mix_Channel list"
  posteffects :: "effect_info list"
  reserved_channels :: int
  channel_done_callback :: "nat option"
  master_volume :: int
  chunks :: "nat \<Rightarrow> Mix_Chunk option"
  sdl_error :: string
  events :: "event list"

definition num_channels :: "mixer_state \<Rightarrow> int" where
  "num_channels s = int (length (mix_channel s))"

text \<open>Ways in which a C call does not return a value: an access outside the channel array,
  a dereference of a \<^verbatim>\<open>NULL\<close> or dangling chunk pointer, a division by zero, or a loop that
  never ends.\<close>
datatype failure = OutOfBounds int | NullChunk | DivByZero | NoReturn

text \<open>\<^verbatim>\<open>mix_channel[i]\<close>, read and written.\<close>
definition chan_access :: "mixer_state \<Rightarrow> int \<Rightarrow> failure + Mix_Channel" where
  "chan_access s i =
     (if 0 \<le> i \<and> i < num_channels s then Inr (mix_channel s ! nat i) else Inl (OutOfBounds i))"

definition chan_store :: "mixer_state \<Rightarrow> int \<Rightarrow> Mix_Channel \<Rightarrow> failure + mixer_state" where
  "chan_store s i c =
     (if 0 \<le> i \<and> i < num_channels s then Inr (s\<lparr>mix_channel := (mix_channel s)[nat i := c]\<rparr>)
      else Inl (OutOfBounds i))"

text \<open>C's integer division truncates towards zero.\<close>
definition c_div :: "int \<Rightarrow> int \<Rightarrow> int" where
  "c_div a b = sgn a * sgn b * (\<bar>a\<bar> div \<bar>b\<bar>)"

section \<open>Channel volume\<close>

text \<open>The body of \<^verbatim>\<open>Mix_Volume\<close> for one channel: a negative volume only queries, a
  volume above the maximum is clamped.\<close>
definition chan_set_volume :: "Mix_Channel \<Rightarrow> int \<Rightarrow> Mix_Channel" where
  "chan_set_volume c v =
     (if v \<ge> 0 then c\<lparr>volume := (if v > MIX_MAX_VOLUME then MIX_MAX_VOLUME else v)\<rparr> else c)"

definition Mix_Volume_one :: "mixer_state \<Rightarrow> int \<Rightarrow> int \<Rightarrow> failure + (mixer_state \<times> int)" where
  "Mix_Volume_one s which v =
     (if which < num_channels s then
        (case chan_access s which of
           Inl f \<Rightarrow> Inl f
         | Inr c \<Rightarrow>
             (case chan_store s which (chan_set_volume c v) of
                Inl f \<Rightarrow> Inl f
              | Inr s' \<Rightarrow> Inr (s', volume c)))
      else Inr (s, 0))"

text \<open>The loop of the \<open>which = -1\<close> branch: \<^verbatim>\<open>prev_volume += Mix_Volume(i, volume)\<close>.\<close>
fun Mix_Volume_all :: "mixer_state \<Rightarrow> int \<Rightarrow> nat list \<Rightarrow> int \<Rightarrow> failure + (mixer_state \<times> int)" where
  "Mix_Volume_all s v [] prev = Inr (s, prev)"
| "Mix_Volume_all s v (i # is) prev =
     (case Mix_Volume_one s (int i) v of
        Inl f \<Rightarrow> Inl f
      | Inr (s', p) \<Rightarrow> Mix_Volume_all s' v is (prev + p))"

definition Mix_Volume :: "mixer_state \<Rightarrow> int \<Rightarrow> int \<Rightarrow> failure + (mixer_state \<times> int)" where
  "Mix_Volume s which v =
     (if which = - 1 then
        (case Mix_Volume_all s v [0..<length (mix_channel s)] 0 of
           Inl f \<Rightarrow> Inl f
         | Inr (s', prev) \<Rightarrow>
             if num_channels s = 0 then Inl DivByZero
             else Inr (s', c_div prev (num_channels s)))
      else Mix_Volume_one s which v)"

section \<open>Effect chains\<close>

text \<open>The loop of \<^verbatim>\<open>_Mix_remove_all_effects\<close>: every node is visited in list order and its
  release callback, when it has one, is called with the channel and the user data.\<close>
fun done_events :: "int \<Rightarrow> effect_info list \<Rightarrow> event list" where
  "done_events channel [] = []"
| "done_events channel (e # es) =
     (case done_callback e of
        None \<Rightarrow> []
      | Some d \<Rightarrow> [EffectDone d channel (udata e)]) @ done_events channel es"

text \<open>\<^verbatim>\<open>_Mix_remove_all_effects(channel, e)\<close> on the chain \<open>e\<close> points to (every caller passes
  the address of a chain, never \<^verbatim>\<open>NULL\<close>): the return value, the chain left behind and the
  callbacks called.\<close>
definition Mix_remove_all_effects :: "int \<Rightarrow> effect_info list \<Rightarrow> bool \<times> effect_info list \<times> event list" where
  "Mix_remove_all_effects channel es = (True, [], done_events channel es)"

text \<open>\<^verbatim>\<open>_Mix_register_effect\<close>: the new node goes to the end of the list. \<open>alloc_ok\<close> is the
  outcome of \<^verbatim>\<open>SDL_malloc\<close>. The third component is the error message set, if any.\<close>
definition Mix_register_effect ::
  "effect_info list \<Rightarrow> nat option \<Rightarrow> nat option \<Rightarrow> nat \<Rightarrow> bool \<Rightarrow> bool \<times> effect_info list \<times> string option" where
  "Mix_register_effect es f d arg alloc_ok =
     (if f = None then (False, es, Some ''NULL effect callback'')
      else if \<not> alloc_ok then (False, es, None)
      else (True, es @ [\<lparr>callback = f, done_callback = d, udata = arg\<rparr>], None))"

definition set_error :: "mixer_state \<Rightarrow> string option \<Rightarrow> mixer_state" where
  "set_error s e = (case e of None \<Rightarrow> s | Some m \<Rightarrow> s\<lparr>sdl_error := m\<rparr>)"

text \<open>\<^verbatim>\<open>Mix_RegisterEffect\<close> (the audio lock it takes has no counterpart in a sequential
  model, so it is \<^verbatim>\<open>_Mix_RegisterEffect_locked\<close>).\<close>
definition Mix_RegisterEffect ::
  "mixer_state \<Rightarrow> int \<Rightarrow> nat option \<Rightarrow> nat option \<Rightarrow> nat \<Rightarrow> bool \<Rightarrow> mixer_state \<times> bool" where
  "Mix_RegisterEffect s channel f d arg alloc_ok =
     (if channel = MIX_CHANNEL_POST then
        (case Mix_register_effect (posteffects s) f d arg alloc_ok of
           (ok, es, err) \<Rightarrow> (set_error (s\<lparr>posteffects := es\<rparr>) err, ok))
      else if channel < 0 \<or> channel \<ge> num_channels s then
        (s\<lparr>sdl_error := ''Invalid channel number''\<rparr>, False)
      else
        (case Mix_register_effect (effects (mix_channel s ! nat channel)) f d arg alloc_ok of
           (ok, es, err) \<Rightarrow>
             (set_error (s\<lparr>mix_channel :=
                 (mix_channel s)[nat channel := (mix_channel s ! nat channel)\<lparr>effects := es\<rparr>]\<rparr>) err, ok)))"

text \<open>\<^verbatim>\<open>Mix_UnregisterAllEffects\<close> (\<^verbatim>\<open>_Mix_UnregisterAllEffects_locked\<close>).\<close>
definition Mix_UnregisterAllEffects :: "mixer_state \<Rightarrow> int \<Rightarrow> mixer_state \<times> bool" where
  "Mix_UnregisterAllEffects s channel =
     (if channel = MIX_CHANNEL_POST then
        (case Mix_remove_all_effects channel (posteffects s) of
           (ok, es, evs) \<Rightarrow> (s\<lparr>posteffects := es, events := events s @ evs\<rparr>, ok))
      else if channel < 0 \<or> channel \<ge> num_channels s then
        (s\<lparr>sdl_error := ''Invalid channel number''\<rparr>, False)
      else
        (case Mix_remove_all_effects channel (effects (mix_channel s ! nat channel)) of
           (ok, es, evs) \<Rightarrow>
             (s\<lparr>mix_channel := (mix_channel s)[nat channel := (mix_channel s ! nat channel)\<lparr>effects := es\<rparr>],
                events := events s @ evs\<rparr>, ok)))"

section \<open>Playing state, halting\<close>

text \<open>The test of \<^verbatim>\<open>Mix_Playing\<close> on one channel.\<close>
definition chan_playing :: "Mix_Channel \<Rightarrow> bool" where
  "chan_playing c = (playing c > 0 \<or> looping c \<noteq> 0)"

definition Mix_Playing :: "mixer_state \<Rightarrow> int \<Rightarrow> failure + int" where
  "Mix_Playing s which =
     (if which = - 1 then Inr (int (length (filter chan_playing (mix_channel s))))
      else if which < num_channels s then
        (case chan_access s which of
           Inl f \<Rightarrow> Inl f
         | Inr c \<Rightarrow> Inr (if chan_playing c then 1 else 0))
      else Inr 0)"

text \<open>\<^verbatim>\<open>_Mix_channel_done_playing(channel)\<close> on the channel record \<open>c = mix_channel[channel]\<close>
  and the event log: the channel-finished callback \<open>cb\<close> is called when it is set, then
  the channel's effects are released. The user's callbacks are opaque: what they may do
  to the registry is outside the model.\<close>
definition channel_done_playing ::
  "nat option \<Rightarrow> int \<Rightarrow> Mix_Channel \<Rightarrow> event list \<Rightarrow> Mix_Channel \<times> event list" where
  "channel_done_playing cb channel c evs =
     (case Mix_remove_all_effects channel (effects c) of
        (ok, es, evs2) \<Rightarrow>
          (c\<lparr>effects := es\<rparr>,
           (case cb of None \<Rightarrow> evs | Some f \<Rightarrow> evs @ [ChannelFinished f channel]) @ evs2))"

text \<open>\<^verbatim>\<open>Mix_HaltChannel_locked(which)\<close> on the record of channel \<open>which\<close>.\<close>
definition halt_channel ::
  "nat option \<Rightarrow> int \<Rightarrow> Mix_Channel \<Rightarrow> event list \<Rightarrow> Mix_Channel \<times> event list" where
  "halt_channel cb which c evs =
     (case (if chan_playing c
            then channel_done_playing cb which (c\<lparr>playing := 0, looping := 0\<rparr>) evs
            else (c, evs)) of
        (c1, evs1) \<Rightarrow>
          (let c2 = c1\<lparr>expire := 0\<rparr>;
               c3 = (if fading c2 \<noteq> MIX_NO_FADING then c2\<lparr>volume := fade_volume_reset c2\<rparr> else c2)
           in (c3\<lparr>fading := MIX_NO_FADING\<rparr>, evs1)))"

definition Mix_HaltChannel_locked :: "mixer_state \<Rightarrow> int \<Rightarrow> failure + mixer_state" where
  "Mix_HaltChannel_locked s which =
     (case chan_access s which of
        Inl f \<Rightarrow> Inl f
      | Inr c \<Rightarrow>
          (case halt_channel (channel_done_callback s) which c (events s) of
             (c', evs') \<Rightarrow> chan_store (s\<lparr>events := evs'\<rparr>) which c'))"

fun Mix_HaltChannel_all :: "mixer_state \<Rightarrow> nat list \<Rightarrow> failure + mixer_state" where
  "Mix_HaltChannel_all s [] = Inr s"
| "Mix_HaltChannel_all s (i # is) =
     (case Mix_HaltChannel_locked s (int i) of
        Inl f \<Rightarrow> Inl f
      | Inr s' \<Rightarrow> Mix_HaltChannel_all s' is)"

definition Mix_HaltChannel :: "mixer_state \<Rightarrow> int \<Rightarrow> failure + mixer_state" where
  "Mix_HaltChannel s which =
     (if which = - 1 then Mix_HaltChannel_all s [0..<length (mix_channel s)]
      else if which < num_channels s then Mix_HaltChannel_locked s which
      else Inr s)"

section \<open>Allocating and reserving channels\<close>

text \<open>A channel as \<^verbatim>\<open>Mix_OpenAudio\<close> and \<^verbatim>\<open>Mix_AllocateChannels\<close> initialise it. The source
  leaves \<open>samples\<close>, \<open>start_time\<close>, \<open>fade_length\<close> and \<open>ticks_fade\<close> of a new channel
  unset; they are 0 here.\<close>
definition init_channel :: Mix_Channel where
  "init_channel =
     \<lparr>chunk = None, playing = 0, paused = 0, samples = 0, volume = MIX_MAX_VOLUME, looping = 0,
      tag = - 1, expire = 0, start_time = 0, fading = MIX_NO_FADING,
      fade_volume = MIX_MAX_VOLUME, fade_volume_reset = MIX_MAX_VOLUME, fade_length = 0,
      ticks_fade = 0, effects = []\<rparr>"

text \<open>The loop that stops the channels a shrinking \<^verbatim>\<open>Mix_AllocateChannels\<close> discards.\<close>
fun stop_channels :: "mixer_state \<Rightarrow> nat list \<Rightarrow> failure + mixer_state" where
  "stop_channels s [] = Inr s"
| "stop_channels s (i # is) =
     (case Mix_HaltChannel (fst (Mix_UnregisterAllEffects s (int i))) (int i) of
        Inl f \<Rightarrow> Inl f
      | Inr s' \<Rightarrow> stop_channels s' is)"

text \<open>\<^verbatim>\<open>Mix_AllocateChannels(numchans)\<close>; \<open>alloc_ok\<close> is the outcome of \<^verbatim>\<open>SDL_realloc\<close>
  (not called when \<open>numchans\<close> is 0).\<close>
definition Mix_AllocateChannels :: "mixer_state \<Rightarrow> int \<Rightarrow> bool \<Rightarrow> failure + (mixer_state \<times> int)" where
  "Mix_AllocateChannels s numchans alloc_ok =
     (if numchans < 0 \<or> numchans = num_channels s then Inr (s, num_channels s)
      else
        (case (if numchans < num_channels s
               then stop_channels s [nat numchans..<length (mix_channel s)]
               else Inr s) of
           Inl f \<Rightarrow> Inl f
         | Inr s1 \<Rightarrow>
             if numchans = 0 \<or> alloc_ok then
               Inr (s1\<lparr>mix_channel :=
                      take (nat numchans) (mix_channel s1) @
                      replicate (nat numchans - length (mix_channel s1)) init_channel\<rparr>,
                    numchans)
             else Inr (s1\<lparr>sdl_error := ''Channel allocation failed''\<rparr>, num_channels s1)))"

definition Mix_ReserveChannels :: "mixer_state \<Rightarrow> int \<Rightarrow> mixer_state \<times> int" where
  "Mix_ReserveChannels s num =
     (let n1 = (if num < 0 then 0 else num);
          n2 = (if n1 > num_channels s then num_channels s else n1)
      in (s\<lparr>reserved_channels := n2\<rparr>, n2))"

section \<open>Starting playback\<close>

text \<open>The loop of \<^verbatim>\<open>checkchunkintegral\<close>: \<^verbatim>\<open>while (chunk->alen % frame_width) chunk->alen--\<close>.\<close>
function trim_alen :: "nat \<Rightarrow> nat \<Rightarrow> nat" where
  "trim_alen fw a = (if a mod fw \<noteq> 0 then trim_alen fw (a - 1) else a)"
  by pat_completeness auto
termination
proof (relation "measure (\<lambda>(fw, a). a)")
  fix fw a :: nat
  assume "a mod fw \<noteq> 0"
  then have "a \<noteq> 0"
    by (cases "a = 0") simp_all
  then show "((fw, a - 1), (fw, a)) \<in> measure (\<lambda>(fw, a). a)"
    by simp
qed simp

declare trim_alen.simps [simp del]

text \<open>The frame width \<^verbatim>\<open>checkchunkintegral\<close> computes from the mixer's format: 2 bytes a
  sample when the low byte of the format (its bit size) is 16, 1 byte otherwise, times the
  number of channels.\<close>
definition frame_width :: "SDL_AudioSpec \<Rightarrow> int" where
  "frame_width m = (if format m AND 0xFF = 16 then 2 else 1) * channels m"

text \<open>\<^verbatim>\<open>checkchunkintegral(chunk)\<close>: the chunk with its length cut down; the C function
  returns that length. The \<^verbatim>\<open>%\<close> is unsigned, so the width is taken modulo \<open>2^32\<close>.\<close>
definition checkchunkintegral :: "SDL_AudioSpec \<Rightarrow> Mix_Chunk \<Rightarrow> failure + Mix_Chunk" where
  "checkchunkintegral m ch =
     (let fw = nat (frame_width m mod 2 ^ 32)
      in if fw = 0 then Inl DivByZero else Inr (ch\<lparr>alen := trim_alen fw (alen ch)\<rparr>))"

text \<open>The scan of \<^verbatim>\<open>Mix_PlayChannelTimed\<close> for a free channel:
  \<^verbatim>\<open>for (i = reserved_channels; i < num_channels; ++i) if (!Mix_Playing(i)) break;\<close>
  The result is the value of \<open>i\<close> after the loop.\<close>
function scan_free :: "mixer_state \<Rightarrow> int \<Rightarrow> failure + int" where
  "scan_free s i =
     (if i < num_channels s then
        (case Mix_Playing s i of
           Inl f \<Rightarrow> Inl f
         | Inr st \<Rightarrow> if st = 0 then Inr i else scan_free s (i + 1))
      else Inr i)"
  by pat_completeness auto
termination
  by (relation "measure (\<lambda>(s, i). nat (num_channels s - i))") auto

declare scan_free.simps [simp del]

text \<open>\<^verbatim>\<open>Mix_PlayChannelTimed(which, chunk, loops, ticks)\<close>; \<open>chunk\<close> is the address of the
  chunk (\<open>None\<close> for \<^verbatim>\<open>NULL\<close>) and \<open>sdl_ticks\<close> the value of \<^verbatim>\<open>SDL_GetTicks()\<close>.\<close>
definition Mix_PlayChannelTimed ::
  "mixer_state \<Rightarrow> int \<Rightarrow> nat option \<Rightarrow> int \<Rightarrow> int \<Rightarrow> 64 word \<Rightarrow> failure + (mixer_state \<times> int)" where
  "Mix_PlayChannelTimed s which chunkp loops ticks sdl_ticks =
     (case chunkp of
        None \<Rightarrow> Inr (s\<lparr>sdl_error := ''Tried to play a NULL chunk''\<rparr>, - 1)
      | Some p \<Rightarrow>
          (case chunks s p of
             None \<Rightarrow> Inl NullChunk
           | Some ch0 \<Rightarrow>
               (case checkchunkintegral (mixer s) ch0 of
                  Inl f \<Rightarrow> Inl f
                | Inr ch \<Rightarrow>
                    (let s0 = s\<lparr>chunks := (chunks s)(p \<mapsto> ch)\<rparr> in
                     if alen ch = 0 then
                       Inr (s0\<lparr>sdl_error := ''Tried to play a chunk with a bad frame''\<rparr>, - 1)
                     else
                       (case (if which = - 1 then
                                (case scan_free s0 (reserved_channels s0) of
                                   Inl f \<Rightarrow> Inl f
                                 | Inr i \<Rightarrow>
                                     if i = num_channels s0
                                     then Inr (s0\<lparr>sdl_error := ''No free channels available''\<rparr>, - 1)
                                     else Inr (s0, i))
                              else
                                (case Mix_Playing s0 which of
                                   Inl f \<Rightarrow> Inl f
                                 | Inr st \<Rightarrow>
                                     if st \<noteq> 0 then
                                       (case chan_access s0 which of
                                          Inl f \<Rightarrow> Inl f
                                        | Inr c \<Rightarrow>
                                            (case channel_done_playing (channel_done_callback s0) which c (events s0) of
                                               (c', evs') \<Rightarrow>
                                                 (case chan_store (s0\<lparr>events := evs'\<rparr>) which c' of
                                                    Inl f \<Rightarrow> Inl f
                                                  | Inr s1 \<Rightarrow> Inr (s1, which))))
                                     else Inr (s0, which))) of
                          Inl f \<Rightarrow> Inl f
                        | Inr (s1, w) \<Rightarrow>
                            if w \<ge> 0 \<and> w < num_channels s1 then
                              Inr (s1\<lparr>mix_channel := (mix_channel s1)[nat w :=
                                     (mix_channel s1 ! nat w)
                                       \<lparr>samples := abuf ch,
                                        playing := int (alen ch),
                                        looping := loops,
                                        chunk := Some p,
                                        paused := 0,
                                        fading := MIX_NO_FADING,
                                        start_time := sdl_ticks,
                                        expire := (if ticks > 0 then sdl_ticks + word_of_int ticks else 0)\<rparr>]\<rparr>,
                                   w)
                            else Inr (s1, w))))))"

section \<open>Fading out\<close>

text \<open>The branch of \<^verbatim>\<open>Mix_FadeOutChannel\<close> for one channel (\<open>which\<close> is not \<open>-1\<close>).\<close>
definition Mix_FadeOutChannel_one ::
  "mixer_state \<Rightarrow> int \<Rightarrow> int \<Rightarrow> 64 word \<Rightarrow> failure + (mixer_state \<times> int)" where
  "Mix_FadeOutChannel_one s which ms sdl_ticks =
     (if which < num_channels s then
        (case Mix_Playing s which of
           Inl f \<Rightarrow> Inl f
         | Inr st \<Rightarrow>
             if st = 0 then Inr (s, 0)
             else
               (case chan_access s which of
                  Inl f \<Rightarrow> Inl f
                | Inr c \<Rightarrow>
                    if volume c > 0 \<and> fading c \<noteq> MIX_FADING_OUT then
                      (let c1 = c\<lparr>fade_volume := volume c,
                                  fade_length := word_of_int ms,
                                  ticks_fade := sdl_ticks\<rparr>;
                           c2 = (if fading c1 = MIX_NO_FADING
                                 then c1\<lparr>fade_volume_reset := volume c1\<rparr> else c1)
                       in case chan_store s which (c2\<lparr>fading := MIX_FADING_OUT\<rparr>) of
                            Inl f \<Rightarrow> Inl f
                          | Inr s' \<Rightarrow> Inr (s', 1))
                    else Inr (s, 0)))
      else Inr (s, 0))"

fun Mix_FadeOutChannel_all ::
  "mixer_state \<Rightarrow> int \<Rightarrow> 64 word \<Rightarrow> nat list \<Rightarrow> int \<Rightarrow> failure + (mixer_state \<times> int)" where
  "Mix_FadeOutChannel_all s ms sdl_ticks [] status = Inr (s, status)"
| "Mix_FadeOutChannel_all s ms sdl_ticks (i # is) status =
     (case Mix_FadeOutChannel_one s (int i) ms sdl_ticks of
        Inl f \<Rightarrow> Inl f
      | Inr (s', n) \<Rightarrow> Mix_FadeOutChannel_all s' ms sdl_ticks is (status + n))"

definition Mix_FadeOutChannel ::
  "mixer_state \<Rightarrow> int \<Rightarrow> int \<Rightarrow> 64 word \<Rightarrow> failure + (mixer_state \<times> int)" where
  "Mix_FadeOutChannel s which ms sdl_ticks =
     (if audio_opened s \<noteq> 0 then
        (if which = - 1
         then Mix_FadeOutChannel_all s ms sdl_ticks [0..<length (mix_channel s)] 0
         else Mix_FadeOutChannel_one s which ms sdl_ticks)
      else Inr (s, 0))"

section \<open>Pausing\<close>




section \<open>Groups\<close>

text \<open>\<^verbatim>\<open>Mix_GroupChannel(which, tag)\<close>: the guard lets \<open>which = num_channels\<close> through.\<close>
definition Mix_GroupChannel :: "mixer_state \<Rightarrow> int \<Rightarrow> int \<Rightarrow> failure + (mixer_state \<times> bool)" where
  "Mix_GroupChannel s which tg =
     (if which < 0 \<or> which > num_channels s then Inr (s, False)
      else
        (if 0 \<le> which \<and> which < num_channels s
         then Inr (s\<lparr>mix_channel := (mix_channel s)[nat which := (mix_channel s ! nat which)\<lparr>tag := tg\<rparr>]\<rparr>, True)
         else Inl (OutOfBounds which)))"

text \<open>The loops of \<^verbatim>\<open>Mix_GroupOldest\<close> and \<^verbatim>\<open>Mix_GroupNewer\<close> over the channels from index
  \<open>i\<close> on; \<open>chan\<close> and \<open>mintime\<close> (\<open>maxtime\<close>) are the loop's variables.\<close>
fun GroupOldest_loop :: "int \<Rightarrow> Mix_Channel list \<Rightarrow> int \<Rightarrow> 64 word \<Rightarrow> int \<Rightarrow> int" where
  "GroupOldest_loop tg [] i mintime chan = chan"
| "GroupOldest_loop tg (c # cs) i mintime chan =
     (if (tag c = tg \<or> tg = - 1) \<and> chan_playing c \<and> start_time c \<le> mintime
      then GroupOldest_loop tg cs (i + 1) (start_time c) i
      else GroupOldest_loop tg cs (i + 1) mintime chan)"

fun GroupNewer_loop :: "int \<Rightarrow> Mix_Channel list \<Rightarrow> int \<Rightarrow> 64 word \<Rightarrow> int \<Rightarrow> int" where
  "GroupNewer_loop tg [] i maxtime chan = chan"
| "GroupNewer_loop tg (c # cs) i maxtime chan =
     (if (tag c = tg \<or> tg = - 1) \<and> chan_playing c \<and> start_time c \<ge> maxtime
      then GroupNewer_loop tg cs (i + 1) (start_time c) i
      else GroupNewer_loop tg cs (i + 1) maxtime chan)"

definition Mix_GroupOldest :: "mixer_state \<Rightarrow> int \<Rightarrow> 64 word \<Rightarrow> int" where
  "Mix_GroupOldest s tg sdl_ticks = GroupOldest_loop tg (mix_channel s) 0 sdl_ticks (- 1)"

definition Mix_GroupNewer :: "mixer_state \<Rightarrow> int \<Rightarrow> int" where
  "Mix_GroupNewer s tg = GroupNewer_loop tg (mix_channel s) 0 0 (- 1)"

section \<open>The mixing callback\<close>

text \<open>The cast \<^verbatim>\<open>(int)\<close> of a \<^verbatim>\<open>Uint64\<close> value keeps the low 32 bits, read as two's
  complement.\<close>
definition int_of_Uint64 :: "64 word \<Rightarrow> int" where
  "int_of_Uint64 w = sint (ucast w :: 32 word)"

text \<open>The integer volume a slice is mixed with:
  \<^verbatim>\<open>(master_vol * (volume * chunk->volume)) / (MIX_MAX_VOLUME * MIX_MAX_VOLUME)\<close>.\<close>
definition mix_volume :: "int \<Rightarrow> Mix_Channel \<Rightarrow> Mix_Chunk \<Rightarrow> int" where
  "mix_volume master_vol c ch =
     c_div (master_vol * (volume c * chunk_volume ch)) (MIX_MAX_VOLUME * MIX_MAX_VOLUME)"

text \<open>The first part of the loop body of \<^verbatim>\<open>mix_channels\<close> for channel \<open>i\<close> (not paused):
  the expiry check and the fade. \<open>Mix_Volume(i, v)\<close> is called there with a valid \<open>i\<close>, so
  it is \<^const>\<open>chan_set_volume\<close> on the channel's record.\<close>
definition mix_fade_step ::
  "nat option \<Rightarrow> int \<Rightarrow> 64 word \<Rightarrow> Mix_Channel \<Rightarrow> event list \<Rightarrow> Mix_Channel \<times> event list" where
  "mix_fade_step cb i sdl_ticks c evs =
     (if expire c > 0 \<and> expire c < sdl_ticks then
        channel_done_playing cb i
          (c\<lparr>playing := 0, looping := 0, fading := MIX_NO_FADING, expire := 0\<rparr>) evs
      else if fading c \<noteq> MIX_NO_FADING then
        (let ticks = sdl_ticks - ticks_fade c in
         if ticks \<ge> fade_length c then
           (let c1 = chan_set_volume c (fade_volume_reset c);
                d = (if fading c1 = MIX_FADING_OUT
                     then channel_done_playing cb i (c1\<lparr>playing := 0, looping := 0, expire := 0\<rparr>) evs
                     else (c1, evs))
            in ((fst d)\<lparr>fading := MIX_NO_FADING\<rparr>, snd d))
         else if fading c = MIX_FADING_OUT then
           (chan_set_volume c
              (int_of_Uint64 ((word_of_int (fade_volume c) * (fade_length c - ticks)) div fade_length c)),
            evs)
         else
           (chan_set_volume c
              (int_of_Uint64 ((word_of_int (fade_volume c) * ticks) div fade_length c)),
            evs))
      else (c, evs))"

text \<open>The first \<^verbatim>\<open>while\<close> loop of the rendering: the rest of the current traversal of the
  chunk goes to the output, up to the space left. The loop's variables are the channel
  record, the event log, \<open>index\<close> and \<open>volume\<close>.\<close>
function mix_play_loop ::
  "nat option \<Rightarrow> int \<Rightarrow> int \<Rightarrow> int \<Rightarrow> Mix_Chunk \<Rightarrow> Mix_Channel \<Rightarrow> event list \<Rightarrow> int \<Rightarrow> int
   \<Rightarrow> Mix_Channel \<times> event list \<times> int \<times> int" where
  "mix_play_loop cb master_vol i len ch c evs index vol =
     (if playing c > 0 \<and> index < len then
        (let mixable = (if playing c > len - index then len - index else playing c);
             c1 = c\<lparr>samples := samples c + mixable, playing := playing c - mixable\<rparr>;
             evs1 = evs @ [Mixed i (samples c) mixable index vol]
         in if playing c1 = 0 \<and> looping c1 = 0 then
              (let d = channel_done_playing cb i (c1\<lparr>fading := MIX_NO_FADING, expire := 0\<rparr>) evs1
               in mix_play_loop cb master_vol i len ch (fst d) (snd d) (index + mixable)
                    (mix_volume master_vol (fst d) ch))
            else mix_play_loop cb master_vol i len ch c1 evs1 (index + mixable) vol)
      else (c, evs, index, vol))"
  by pat_completeness auto
termination
  by (relation "measure (\<lambda>(cb, master_vol, i, len, ch, c, evs, index, vol). nat (len - index))") auto

declare mix_play_loop.simps [simp del]

text \<open>The second \<^verbatim>\<open>while\<close> loop: while the channel loops and output space is left, the
  chunk is read again from its start. With an empty chunk and an endless loop count the C
  loop makes no progress and never ends.\<close>
function mix_loop_again ::
  "int \<Rightarrow> int \<Rightarrow> Mix_Chunk \<Rightarrow> int \<Rightarrow> Mix_Channel \<Rightarrow> event list \<Rightarrow> int
   \<Rightarrow> failure + (Mix_Channel \<times> event list \<times> int)" where
  "mix_loop_again i len ch vol c evs index =
     (if looping c \<noteq> 0 \<and> index < len then
        (let remaining = (if len - index > int (alen ch) then int (alen ch) else len - index) in
         if remaining = 0 \<and> looping c < 0 then Inl NoReturn
         else mix_loop_again i len ch vol
                (c\<lparr>looping := (if looping c > 0 then looping c - 1 else looping c),
                   samples := abuf ch + remaining,
                   playing := int (alen ch) - remaining\<rparr>)
                (evs @ [Mixed i (abuf ch) remaining index vol])
                (index + remaining))
      else Inr (c, evs, index))"
  by pat_completeness auto
termination
  by (relation "measure (\<lambda>(i, len, ch, vol, c, evs, index). nat (len - index) + nat (looping c))")
    (auto split: if_splits)

declare mix_loop_again.simps [simp del]

text \<open>The rendering of channel \<open>i\<close>: both loops, then the rewind of a looping channel whose
  traversal ended exactly at the end of the output buffer.\<close>
definition mix_render ::
  "(nat \<Rightarrow> Mix_Chunk option) \<Rightarrow> nat option \<Rightarrow> int \<Rightarrow> int \<Rightarrow> int \<Rightarrow> Mix_Channel \<Rightarrow> event list
   \<Rightarrow> failure + (Mix_Channel \<times> event list)" where
  "mix_render chs cb master_vol i len c evs =
     (if playing c > 0 then
        (case chunk c of
           None \<Rightarrow> Inl NullChunk
         | Some p \<Rightarrow>
             (case chs p of
                None \<Rightarrow> Inl NullChunk
              | Some ch \<Rightarrow>
                  (case mix_play_loop cb master_vol i len ch c evs 0 (mix_volume master_vol c ch) of
                     (c1, evs1, index1, vol1) \<Rightarrow>
                       (case mix_loop_again i len ch vol1 c1 evs1 index1 of
                          Inl f \<Rightarrow> Inl f
                        | Inr (c2, evs2, index2) \<Rightarrow>
                            Inr (if playing c2 = 0 \<and> looping c2 \<noteq> 0
                                 then c2\<lparr>looping := (if looping c2 > 0 then looping c2 - 1 else looping c2),
                                         samples := abuf ch,
                                         playing := int (alen ch)\<rparr>
                                 else c2,
                                 evs2)))))
      else Inr (c, evs))"

text \<open>The whole loop body for channel \<open>i\<close>.\<close>
definition mix_one_channel ::
  "(nat \<Rightarrow> Mix_Chunk option) \<Rightarrow> nat option \<Rightarrow> int \<Rightarrow> int \<Rightarrow> 64 word \<Rightarrow> int \<Rightarrow> Mix_Channel \<Rightarrow> event list
   \<Rightarrow> failure + (Mix_Channel \<times> event list)" where
  "mix_one_channel chs cb master_vol len sdl_ticks i c evs =
     (if paused c = 0 then
        (case mix_fade_step cb i sdl_ticks c evs of
           (c1, evs1) \<Rightarrow> mix_render chs cb master_vol i len c1 evs1)
      else Inr (c, evs))"

fun mix_channels_loop ::
  "(nat \<Rightarrow> Mix_Chunk option) \<Rightarrow> nat option \<Rightarrow> int \<Rightarrow> int \<Rightarrow> 64 word \<Rightarrow> int \<Rightarrow> Mix_Channel list
   \<Rightarrow> event list \<Rightarrow> failure + (Mix_Channel list \<times> event list)" where
  "mix_channels_loop chs cb master_vol len sdl_ticks i [] evs = Inr ([], evs)"
| "mix_channels_loop chs cb master_vol len sdl_ticks i (c # cs) evs =
     (case mix_one_channel chs cb master_vol len sdl_ticks i c evs of
        Inl f \<Rightarrow> Inl f
      | Inr (c', evs') \<Rightarrow>
          (case mix_channels_loop chs cb master_vol len sdl_ticks (i + 1) cs evs' of
             Inl f \<Rightarrow> Inl f
           | Inr (cs', evs'') \<Rightarrow> Inr (c' # cs', evs'')))"

text \<open>\<^verbatim>\<open>mix_channels\<close> for an output of \<open>len\<close> bytes at tick \<open>sdl_ticks\<close>. \<open>buf_ok\<close> says
  that the scratch buffer is large enough or could be grown; otherwise the callback
  returns at once. The music, the post-mix effects and the hook only touch the output
  bytes, which are not modelled.\<close>
definition mix_channels :: "mixer_state \<Rightarrow> bool \<Rightarrow> int \<Rightarrow> 64 word \<Rightarrow> failure + mixer_state" where
  "mix_channels s buf_ok len sdl_ticks =
     (if \<not> buf_ok then Inr s
      else
        (case mix_channels_loop (chunks s) (channel_done_callback s) (master_volume s) len sdl_ticks 0
                (mix_channel s) (events s) of
           Inl f \<Rightarrow> Inl f
         | Inr (cs, evs) \<Rightarrow> Inr (s\<lparr>mix_channel := cs, events := evs\<rparr>)))"

section \<open>Opening the mixer\<close>

text \<open>Modelled from the spec: the number of channels a freshly opened mixer has
  (\<^verbatim>\<open>MIX_CHANNELS\<close> of the header).\<close>
definition MIX_CHANNELS :: nat where
  "MIX_CHANNELS = 8"

text \<open>The globals after a first successful \<^verbatim>\<open>Mix_OpenAudio\<close> on a device of format \<open>m\<close>:
  \<^verbatim>\<open>MIX_CHANNELS\<close> idle channels, no effects, nothing reserved, no callback, full master
  volume, and no chunk loaded yet.\<close>
definition opened_mixer :: "SDL_AudioSpec \<Rightarrow> mixer_state" where
  "opened_mixer m =
     \<lparr>audio_opened = 1, mixer = m, mix_channel = replicate MIX_CHANNELS init_channel,
      posteffects = [], reserved_channels = 0, channel_done_callback = None,
      master_volume = MIX_MAX_VOLUME, chunks = (\<lambda>p. None), sdl_error = [], events = []\<rparr>"

text \<open>Two device formats: signed 16-bit stereo and 32-bit float stereo
  (\<^verbatim>\<open>SDL_AUDIO_S16LE = 0x8010\<close>, \<^verbatim>\<open>SDL_AUDIO_F32LE = 0x8120\<close>; the low byte is the bit size
  of a sample).\<close>
definition spec_s16_stereo :: SDL_AudioSpec where
  "spec_s16_stereo = \<lparr>format = 0x8010, channels = 2, freq = 44100\<rparr>"

definition spec_f32_stereo :: SDL_AudioSpec where
  "spec_f32_stereo = \<lparr>format = 0x8120, channels = 2, freq = 48000\<rparr>"

text \<open>The chain an effect call addresses: the post-mix chain or a channel's.\<close>
definition effect_chain :: "mixer_state \<Rightarrow> int \<Rightarrow> effect_info list" where
  "effect_chain s channel =
     (if channel = MIX_CHANNEL_POST then posteffects s else effects (mix_channel s ! nat channel))"

section \<open>Concrete states\<close>

text \<open>An opened 16-bit stereo mixer with one chunk of 1000 bytes loaded at address 1, and
  the same mixer after that chunk was started on channel 0 at tick 5 and a fade-out of
  1000 ms was requested for it at tick 10.\<close>
definition demo_chunk :: Mix_Chunk where
  "demo_chunk = \<lparr>allocated = 1, abuf = 4096, alen = 1000, chunk_volume = MIX_MAX_VOLUME\<rparr>"

definition demo_loaded :: mixer_state where
  "demo_loaded = (opened_mixer spec_s16_stereo)\<lparr>chunks := (\<lambda>p. if p = 1 then Some demo_chunk else None)\<rparr>"

definition state_of :: "failure + (mixer_state \<times> 'a) \<Rightarrow> mixer_state" where
  "state_of r = (case r of Inr (s, x) \<Rightarrow> s | Inl f \<Rightarrow> demo_loaded)"

definition demo_playing :: mixer_state where
  "demo_playing = state_of (Mix_PlayChannelTimed demo_loaded 0 (Some 1) 0 (- 1) 5)"

definition demo_fading_out :: mixer_state where
  "demo_fading_out = state_of (Mix_FadeOutChannel demo_playing 0 1000 10)"

text \<open>The outcome of a call: its return value, if it returns, and the mixer after a
  mixing callback.\<close>
definition result_of :: "failure + (mixer_state \<times> 'a) \<Rightarrow> 'a option" where
  "result_of r = (case r of Inr (s, x) \<Rightarrow> Some x | Inl f \<Rightarrow> None)"

definition mixed_state :: "mixer_state \<Rightarrow> failure + mixer_state \<Rightarrow> mixer_state" where
  "mixed_state s0 r = (case r of Inr s \<Rightarrow> s | Inl f \<Rightarrow> s0)"

text \<open>The loaded mixer after all 8 channels were reserved and the registry was then shrunk
  to 4 channels.\<close>
definition demo_shrunk :: mixer_state where
  "demo_shrunk = state_of (Mix_AllocateChannels (fst (Mix_ReserveChannels demo_loaded 8)) 4 True)"

text \<open>A 16-bit stereo mixer with a channel-finished callback and a chunk of one frame
  (4 bytes); the chunk started on channel 0 with 2 repeats; the mixer after one callback
  of 12 bytes.\<close>
definition loop_chunk :: Mix_Chunk where
  "loop_chunk = \<lparr>allocated = 1, abuf = 4096, alen = 4, chunk_volume = MIX_MAX_VOLUME\<rparr>"

definition loop_loaded :: mixer_state where
  "loop_loaded = (opened_mixer spec_s16_stereo)
     \<lparr>channel_done_callback := Some 7, chunks := (\<lambda>p. if p = 1 then Some loop_chunk else None)\<rparr>"

definition loop_started :: mixer_state where
  "loop_started = state_of (Mix_PlayChannelTimed loop_loaded 0 (Some 1) 2 (- 1) 5)"

definition loop_mixed :: mixer_state where
  "loop_mixed = mixed_state loop_started (mix_channels loop_started True 12 6)"

text \<open>The frame size in the words of the specification, sample width times channel count;
  the low byte of an SDL audio format is the sample's size in bits. The streaming loader
  in the same file computes its fragment size this way.\<close>
definition frame_size_spec :: "SDL_AudioSpec \<Rightarrow> int" where
  "frame_size_spec m = (uint (format m AND 0xFF) div 8) * channels m"

text \<open>A 32-bit float stereo mixer with a chunk of 10 bytes, started on channel 0.\<close>
definition f32_chunk :: Mix_Chunk where
  "f32_chunk = \<lparr>allocated = 1, abuf = 4096, alen = 10, chunk_volume = MIX_MAX_VOLUME\<rparr>"

definition f32_loaded :: mixer_state where
  "f32_loaded = (opened_mixer spec_f32_stereo)\<lparr>chunks := (\<lambda>p. if p = 1 then Some f32_chunk else None)\<rparr>"

definition f32_started :: mixer_state where
  "f32_started = state_of (Mix_PlayChannelTimed f32_loaded 0 (Some 1) 0 (- 1) 5)"

text \<open>A channel that a group query with tag \<open>tg\<close> considers: it carries the tag (or the
  query's tag is \<open>-1\<close>) and it is playing.\<close>
definition group_match :: "int \<Rightarrow> Mix_Channel \<Rightarrow> bool" where
  "group_match tg c = ((tag c = tg \<or> tg = - 1) \<and> chan_playing c)"

text \<open>The loaded mixer after the chunk was started on channel 0 and on channel 1 within
  the same millisecond (tick 5).\<close>
definition demo_two_playing :: mixer_state where
  "demo_two_playing = state_of (Mix_PlayChannelTimed demo_playing 1 (Some 1) 0 (- 1) 5)"

text \<open>The loaded mixer with an effect registered on channel 5 and the chunk started
  there.\<close>
definition demo_upper_playing :: mixer_state where
  "demo_upper_playing =
     state_of (Mix_PlayChannelTimed (fst (Mix_RegisterEffect demo_loaded 5 (Some 11) (Some 21) 100 True))
       5 (Some 1) 0 (- 1) 5)"

text \<open>The same mixer with a channel-finished callback installed.\<close>
definition demo_upper_playing_cb :: mixer_state where
  "demo_upper_playing_cb = demo_upper_playing\<lparr>channel_done_callback := Some 7\<rparr>"

text \<open>The loop mixer of above after three callbacks of 4 bytes each instead of one of 12
  bytes.\<close>
definition loop_mixed_split :: mixer_state where
  "loop_mixed_split =
     mixed_state loop_started
       (mix_channels
          (mixed_state loop_started
             (mix_channels (mixed_state loop_started (mix_channels loop_started True 4 6)) True 4 7))
          True 4 8)"

text \<open>The invariant of a channel that plays the chunk \<open>ch\<close>: the read cursor and the
  number of bytes left add up to the end of the chunk's buffer.\<close>
definition cursor_ok :: "Mix_Chunk \<Rightarrow> Mix_Channel \<Rightarrow> bool" where
  "cursor_ok ch c =
     (0 \<le> playing c \<and> abuf ch \<le> samples c \<and> samples c + playing c = abuf ch + int (alen ch))"

text \<open>An event that reads chunk bytes stays within the buffer of \<open>ch\<close>.\<close>
fun read_within :: "Mix_Chunk \<Rightarrow> event \<Rightarrow> bool" where
  "read_within ch (Mixed c a n k v) = (abuf ch \<le> a \<and> 0 \<le> n \<and> a + n \<le> abuf ch + int (alen ch))"
| "read_within ch (ChannelFinished f c) = True"
| "read_within ch (EffectDone d c u) = True"


text \<open>The loaded mixer after the chunk was started on channel 0 at tick 5 with a limit of
  100 ms, a fade-out of 50 ms was requested at tick 10, and the callback ran at tick 35.\<close>
definition demo_expiring :: mixer_state where
  "demo_expiring =
     mixed_state demo_loaded
       (mix_channels
          (state_of (Mix_FadeOutChannel
             (state_of (Mix_PlayChannelTimed demo_loaded 0 (Some 1) 0 100 5)) 0 50 10))
          True 64 35)"

section \<open>Properties\<close>

lemma Mix_Volume_valid:
  assumes "0 \<le> c" "c < num_channels s"
  shows "Mix_Volume s c v =
    Inr (s\<lparr>mix_channel := (mix_channel s)[nat c := chan_set_volume (mix_channel s ! nat c) v]\<rparr>,
         volume (mix_channel s ! nat c))"
  using assms by (simp add: Mix_Volume_def Mix_Volume_one_def chan_access_def chan_store_def)

lemma num_channels_upd [simp]:
  "num_channels (s\<lparr>mix_channel := (mix_channel s)[i := c]\<rparr>) = num_channels s"
  by (simp add: num_channels_def)

text \<open>
  C7. For a valid channel index \<open>c\<close> and a volume \<open>v\<close> in \<open>[0, MAX]\<close>, setting the volume and
  then querying it (volume \<open>-1\<close>) returns \<open>v\<close>; for \<open>v\<close> above \<open>MAX\<close> the query returns
  \<open>MAX\<close>; and a query returns the state it was given, so it never changes the stored
  volume.
\<close>
theorem Mix_Volume_set_then_query:
  assumes "0 \<le> c" and "c < num_channels s"
  shows "\<exists>s1 p. Mix_Volume s c v = Inr (s1, p) \<and>
           (0 \<le> v \<and> v \<le> MIX_MAX_VOLUME \<longrightarrow> Mix_Volume s1 c (- 1) = Inr (s1, v)) \<and>
           (MIX_MAX_VOLUME < v \<longrightarrow> Mix_Volume s1 c (- 1) = Inr (s1, MIX_MAX_VOLUME)) \<and>
           Mix_Volume s c (- 1) = Inr (s, volume (mix_channel s ! nat c))"
proof -
  let ?s1 = "s\<lparr>mix_channel := (mix_channel s)[nat c := chan_set_volume (mix_channel s ! nat c) v]\<rparr>"
  have len: "nat c < length (mix_channel s)"
    using assms by (simp add: num_channels_def)
  have set: "Mix_Volume s c v = Inr (?s1, volume (mix_channel s ! nat c))"
    by (rule Mix_Volume_valid [OF assms])
  have c1: "c < num_channels ?s1"
    using assms by simp
  have q1: "Mix_Volume ?s1 c (- 1) = Inr (?s1, volume (chan_set_volume (mix_channel s ! nat c) v))"
    using Mix_Volume_valid [OF assms(1) c1, of "- 1"] len
    by (simp add: chan_set_volume_def)
  have q0: "Mix_Volume s c (- 1) = Inr (s, volume (mix_channel s ! nat c))"
    using Mix_Volume_valid [OF assms, of "- 1"] by (simp add: chan_set_volume_def)
  have in_range: "0 \<le> v \<and> v \<le> MIX_MAX_VOLUME \<longrightarrow>
      volume (chan_set_volume (mix_channel s ! nat c) v) = v"
    by (simp add: chan_set_volume_def)
  have above: "MIX_MAX_VOLUME < v \<longrightarrow>
      volume (chan_set_volume (mix_channel s ! nat c) v) = MIX_MAX_VOLUME"
    by (simp add: chan_set_volume_def MIX_MAX_VOLUME_def)
  show ?thesis
    using set q1 q0 in_range above by auto
qed

theorem Mix_Volume_set_then_query_witness:
  "(0::int) \<le> 3 \<and> 3 < num_channels (opened_mixer spec_s16_stereo) \<and>
   (\<exists>s1 p. Mix_Volume (opened_mixer spec_s16_stereo) 3 64 = Inr (s1, p) \<and>
            Mix_Volume s1 3 (- 1) = Inr (s1, 64))"
proof -
  have h: "3 < num_channels (opened_mixer spec_s16_stereo)"
    by (simp add: num_channels_def opened_mixer_def MIX_CHANNELS_def)
  have v: "(0::int) \<le> 64 \<and> 64 \<le> MIX_MAX_VOLUME"
    by (simp add: MIX_MAX_VOLUME_def)
  show ?thesis
    using h v Mix_Volume_set_then_query [of 3 "opened_mixer spec_s16_stereo" 64]
    by auto
qed

subsection \<open>Effect chains\<close>

lemma register_effect_ok:
  assumes "channel = MIX_CHANNEL_POST \<or> (0 \<le> channel \<and> channel < num_channels s)"
  shows "snd (Mix_RegisterEffect s channel (Some f) d a True) = True"
    and "effect_chain (fst (Mix_RegisterEffect s channel (Some f) d a True)) channel =
           effect_chain s channel @ [\<lparr>callback = Some f, done_callback = d, udata = a\<rparr>]"
    and "events (fst (Mix_RegisterEffect s channel (Some f) d a True)) = events s"
    and "num_channels (fst (Mix_RegisterEffect s channel (Some f) d a True)) = num_channels s"
  using assms
  by (auto simp: Mix_RegisterEffect_def Mix_register_effect_def set_error_def effect_chain_def
      MIX_CHANNEL_POST_def num_channels_def)

lemma unregister_all_ok:
  assumes "channel = MIX_CHANNEL_POST \<or> (0 \<le> channel \<and> channel < num_channels s)"
  shows "snd (Mix_UnregisterAllEffects s channel) = True"
    and "effect_chain (fst (Mix_UnregisterAllEffects s channel)) channel = []"
    and "events (fst (Mix_UnregisterAllEffects s channel)) =
           events s @ done_events channel (effect_chain s channel)"
    and "num_channels (fst (Mix_UnregisterAllEffects s channel)) = num_channels s"
  using assms
  by (auto simp: Mix_UnregisterAllEffects_def Mix_remove_all_effects_def effect_chain_def
      MIX_CHANNEL_POST_def num_channels_def)

lemma unregister_all_empty:
  assumes "channel = MIX_CHANNEL_POST \<or> (0 \<le> channel \<and> channel < num_channels s)"
    and "effect_chain s channel = []"
  shows "Mix_UnregisterAllEffects s channel = (s, True)"
  using assms
  by (auto simp: Mix_UnregisterAllEffects_def Mix_remove_all_effects_def effect_chain_def
      MIX_CHANNEL_POST_def num_channels_def list_update_same_conv)

lemma done_events_calls:
  "done_events channel es =
     concat (map (\<lambda>e. case done_callback e of None \<Rightarrow> []
                        | Some d \<Rightarrow> [EffectDone d channel (udata e)]) es)"
  by (induction es) simp_all

text \<open>
  C9. On a valid channel or the post stage, register effect \<open>e1\<close> with release callback
  \<open>r1\<close> and user data \<open>a1\<close>, and then \<open>e2\<close> with release callback \<open>r2\<close> and user data
  \<open>a2\<close>. Both registrations succeed, and \<open>unregister_all\<close> then succeeds and leaves the
  chain empty. The calls it makes are, first, the release callbacks of the effects the
  chain held before, and then exactly two more: \<open>r1\<close> with the channel and \<open>a1\<close>, and
  after it \<open>r2\<close> with the channel and \<open>a2\<close>. A second \<open>unregister_all\<close> succeeds and
  returns the state unchanged: it calls nothing.
\<close>
theorem unregister_all_releases_in_order:
  assumes "channel = MIX_CHANNEL_POST \<or> (0 \<le> channel \<and> channel < num_channels s)"
  shows "\<exists>s1 s2 s3.
           Mix_RegisterEffect s channel (Some f1) (Some r1) a1 True = (s1, True) \<and>
           Mix_RegisterEffect s1 channel (Some f2) (Some r2) a2 True = (s2, True) \<and>
           Mix_UnregisterAllEffects s2 channel = (s3, True) \<and>
           events s3 = events s @
                         concat (map (\<lambda>e. case done_callback e of None \<Rightarrow> []
                                            | Some d \<Rightarrow> [EffectDone d channel (udata e)])
                                   (effect_chain s channel)) @
                         [EffectDone r1 channel a1, EffectDone r2 channel a2] \<and>
           effect_chain s3 channel = [] \<and>
           Mix_UnregisterAllEffects s3 channel = (s3, True)"
proof -
  let ?r1 = "Mix_RegisterEffect s channel (Some f1) (Some r1) a1 True"
  let ?r2 = "Mix_RegisterEffect (fst ?r1) channel (Some f2) (Some r2) a2 True"
  let ?r3 = "Mix_UnregisterAllEffects (fst ?r2) channel"
  have v1: "channel = MIX_CHANNEL_POST \<or> (0 \<le> channel \<and> channel < num_channels (fst ?r1))"
    using assms register_effect_ok(4) [OF assms] by simp
  have v2: "channel = MIX_CHANNEL_POST \<or> (0 \<le> channel \<and> channel < num_channels (fst ?r2))"
    using v1 register_effect_ok(4) [OF v1] by simp
  have v3: "channel = MIX_CHANNEL_POST \<or> (0 \<le> channel \<and> channel < num_channels (fst ?r3))"
    using v2 unregister_all_ok(4) [OF v2] by simp
  have e1: "?r1 = (fst ?r1, True)"
    using register_effect_ok(1) [OF assms, of f1 "Some r1" a1] by (simp add: prod_eq_iff)
  have e2: "?r2 = (fst ?r2, True)"
    using register_effect_ok(1) [OF v1, of f2 "Some r2" a2] by (simp add: prod_eq_iff)
  have e3: "?r3 = (fst ?r3, True)"
    using unregister_all_ok(1) [OF v2] by (simp add: prod_eq_iff)
  have chain2: "effect_chain (fst ?r2) channel =
      effect_chain s channel @
        [\<lparr>callback = Some f1, done_callback = Some r1, udata = a1\<rparr>,
         \<lparr>callback = Some f2, done_callback = Some r2, udata = a2\<rparr>]"
    by (simp add: register_effect_ok(2) [OF v1] register_effect_ok(2) [OF assms])
  have ev2: "events (fst ?r2) = events s"
    by (simp add: register_effect_ok(3) [OF v1] register_effect_ok(3) [OF assms])
  have ev3: "events (fst ?r3) = events s @
      concat (map (\<lambda>e. case done_callback e of None \<Rightarrow> []
                         | Some d \<Rightarrow> [EffectDone d channel (udata e)])
                (effect_chain s channel)) @
      [EffectDone r1 channel a1, EffectDone r2 channel a2]"
    unfolding unregister_all_ok(3) [OF v2] chain2 ev2 done_events_calls by simp
  have empty3: "effect_chain (fst ?r3) channel = []"
    by (rule unregister_all_ok(2) [OF v2])
  have again: "Mix_UnregisterAllEffects (fst ?r3) channel = (fst ?r3, True)"
    by (rule unregister_all_empty [OF v3 empty3])
  show ?thesis
    using e1 e2 e3 ev3 empty3 again by metis
qed

theorem unregister_all_releases_in_order_witness:
  "(0::int) \<le> 2 \<and> 2 < num_channels (opened_mixer spec_s16_stereo) \<and>
   (\<exists>s1 s2 s3.
      Mix_RegisterEffect (opened_mixer spec_s16_stereo) 2 (Some 11) (Some 21) 100 True = (s1, True) \<and>
      Mix_RegisterEffect s1 2 (Some 12) (Some 22) 200 True = (s2, True) \<and>
      Mix_UnregisterAllEffects s2 2 = (s3, True) \<and>
      events s3 = [EffectDone 21 2 100, EffectDone 22 2 200] \<and>
      effect_chain s3 2 = [] \<and>
      Mix_UnregisterAllEffects s3 2 = (s3, True))"
proof -
  have h: "(0::int) \<le> 2 \<and> 2 < num_channels (opened_mixer spec_s16_stereo)"
    by (simp add: num_channels_def opened_mixer_def MIX_CHANNELS_def)
  have c: "effect_chain (opened_mixer spec_s16_stereo) 2 = []"
    by (simp add: effect_chain_def opened_mixer_def MIX_CHANNELS_def MIX_CHANNEL_POST_def
        init_channel_def)
  have e: "events (opened_mixer spec_s16_stereo) = []"
    by (simp add: opened_mixer_def)
  show ?thesis
    using h unregister_all_releases_in_order
      [of 2 "opened_mixer spec_s16_stereo" 11 21 100 12 22 200]
    by (simp add: c e)
qed

subsection \<open>Evaluating the concrete states\<close>

lemma replicate_8: "replicate 8 x = [x, x, x, x, x, x, x, x]"
  by (simp add: eval_nat_numeral)

lemmas demo_defs = demo_loaded_def opened_mixer_def spec_s16_stereo_def demo_chunk_def
  MIX_CHANNELS_def replicate_8 init_channel_def

lemmas call_defs = state_of_def Mix_PlayChannelTimed_def checkchunkintegral_def frame_width_def
  trim_alen.simps Mix_Playing_def chan_access_def chan_store_def num_channels_def chan_playing_def
  Mix_FadeOutChannel_def Mix_FadeOutChannel_one_def

subsection \<open>Fade-out requests\<close>

text \<open>
  C4, as the claim states it, fails: a channel that is playing with positive volume and is
  already fading out does not take a second fade-out request. On the mixer that plays a
  chunk on channel 0 and fades it out since tick 10, a request at tick 200 returns the
  count 0 and the state it was given, so the ramp still starts at tick 10.
\<close>
theorem fade_out_twice_counterexample:
  "Mix_Playing demo_fading_out 0 = Inr 1 \<and>
   0 < volume (mix_channel demo_fading_out ! 0) \<and>
   fading (mix_channel demo_fading_out ! 0) = MIX_FADING_OUT \<and>
   ticks_fade (mix_channel demo_fading_out ! 0) = 10 \<and>
   Mix_FadeOutChannel demo_fading_out 0 500 200 = Inr (demo_fading_out, 0)"
  by (simp add: demo_fading_out_def demo_playing_def demo_defs call_defs MIX_MAX_VOLUME_def)

text \<open>
  C4, amended. On an open mixer and a valid channel index: when the channel is playing
  with positive volume and is not already fading out (it is fading in, or not fading), a
  fade-out request is accepted: the fade state becomes fading-out, the ramp starts from
  the channel's current volume at the current tick with the requested length, the
  pre-fade volume is recorded only if the channel was not fading, no other channel
  changes and the count is 1. When the channel is not playing, or is already fading out,
  the request returns the state unchanged and the count 0.
\<close>
theorem fade_out_request:
  assumes "audio_opened s \<noteq> 0" and "0 \<le> which" and "which < num_channels s"
  shows "(chan_playing (mix_channel s ! nat which) \<and> 0 < volume (mix_channel s ! nat which) \<and>
          fading (mix_channel s ! nat which) \<noteq> MIX_FADING_OUT \<longrightarrow>
            Mix_FadeOutChannel s which ms sdl_ticks =
              Inr (s\<lparr>mix_channel := (mix_channel s)[nat which := (mix_channel s ! nat which)
                        \<lparr>fade_volume := volume (mix_channel s ! nat which),
                         fade_length := word_of_int ms,
                         ticks_fade := sdl_ticks,
                         fade_volume_reset :=
                           (if fading (mix_channel s ! nat which) = MIX_NO_FADING
                            then volume (mix_channel s ! nat which)
                            else fade_volume_reset (mix_channel s ! nat which)),
                         fading := MIX_FADING_OUT\<rparr>]\<rparr>, 1)) \<and>
         (\<not> chan_playing (mix_channel s ! nat which) \<or>
          fading (mix_channel s ! nat which) = MIX_FADING_OUT \<longrightarrow>
            Mix_FadeOutChannel s which ms sdl_ticks = Inr (s, 0))"
  using assms
  by (auto simp: Mix_FadeOutChannel_def Mix_FadeOutChannel_one_def Mix_Playing_def
      chan_access_def chan_store_def Let_def)

theorem fade_out_request_witness:
  "audio_opened demo_playing \<noteq> 0 \<and> (0::int) \<le> 0 \<and> 0 < num_channels demo_playing \<and>
   chan_playing (mix_channel demo_playing ! nat 0) \<and>
   0 < volume (mix_channel demo_playing ! nat 0) \<and>
   fading (mix_channel demo_playing ! nat 0) \<noteq> MIX_FADING_OUT \<and>
   (\<exists>s'. Mix_FadeOutChannel demo_playing 0 1000 10 = Inr (s', 1) \<and>
         fading (mix_channel s' ! 0) = MIX_FADING_OUT \<and>
         fade_volume (mix_channel s' ! 0) = 128 \<and>
         fade_length (mix_channel s' ! 0) = 1000 \<and>
         ticks_fade (mix_channel s' ! 0) = 10)"
proof -
  have h: "audio_opened demo_playing \<noteq> 0 \<and> (0::int) \<le> 0 \<and> 0 < num_channels demo_playing"
    by (simp add: demo_playing_def demo_defs call_defs)
  have c: "chan_playing (mix_channel demo_playing ! nat 0) \<and>
      0 < volume (mix_channel demo_playing ! nat 0) \<and>
      fading (mix_channel demo_playing ! nat 0) \<noteq> MIX_FADING_OUT \<and>
      volume (mix_channel demo_playing ! nat 0) = 128 \<and>
      0 < length (mix_channel demo_playing)"
    by (simp add: demo_playing_def demo_defs call_defs MIX_MAX_VOLUME_def)
  show ?thesis
    using h c fade_out_request [of demo_playing 0 1000 10]
    by simp
qed

subsection \<open>Group tags\<close>

text \<open>
  C10. \<^verbatim>\<open>Mix_GroupChannel\<close> is to refuse every index outside \<open>[0, num_channels - 1]\<close>. Its
  guard is \<^verbatim>\<open>which > num_channels\<close>, so the index \<open>num_channels\<close> itself passes: on the
  freshly opened mixer with 8 channels the call with index 8 does not return failure, it
  stores the tag at \<^verbatim>\<open>mix_channel[8]\<close>, one element past the end of the array.
\<close>
theorem group_channel_past_end:
  "num_channels (opened_mixer spec_s16_stereo) = 8 \<and>
   Mix_GroupChannel (opened_mixer spec_s16_stereo) 8 5 = Inl (OutOfBounds 8)"
  by (simp add: Mix_GroupChannel_def num_channels_def opened_mixer_def MIX_CHANNELS_def)

subsection \<open>Automatic channel assignment\<close>

text \<open>The scan for a free channel, and the automatic assignment, when the reserved
  count does not exceed the channel count: the chunk goes to the first channel from
  \<open>reserved_channels\<close> on that is not playing, or the call fails with \<open>-1\<close>.\<close>

lemma scan_free_result:
  assumes "0 \<le> i" and "i \<le> num_channels s"
  shows "\<exists>k. scan_free s i = Inr k \<and> i \<le> k \<and> k \<le> num_channels s \<and>
           (\<forall>j. i \<le> j \<and> j < k \<longrightarrow> chan_playing (mix_channel s ! nat j)) \<and>
           (k < num_channels s \<longrightarrow> \<not> chan_playing (mix_channel s ! nat k))"
  using assms
proof (induction s i rule: scan_free.induct)
  case (1 s i)
  show ?case
  proof (cases "i < num_channels s")
    case False
    with 1(3) have eq: "i = num_channels s" by simp
    have "scan_free s i = Inr i"
      using False by (subst scan_free.simps) simp
    then show ?thesis using eq by auto
  next
    case True
    have pl: "Mix_Playing s i = Inr (if chan_playing (mix_channel s ! nat i) then 1 else 0)"
      using True 1(2) by (simp add: Mix_Playing_def chan_access_def)
    show ?thesis
    proof (cases "chan_playing (mix_channel s ! nat i)")
      case False
      then have "scan_free s i = Inr i"
        using True pl by (subst scan_free.simps) simp
      then show ?thesis using True False by auto
    next
      case playing: True
      then have step: "scan_free s i = scan_free s (i + 1)"
        using True pl by (subst scan_free.simps) simp
      have "\<exists>k. scan_free s (i + 1) = Inr k \<and> i + 1 \<le> k \<and> k \<le> num_channels s \<and>
           (\<forall>j. i + 1 \<le> j \<and> j < k \<longrightarrow> chan_playing (mix_channel s ! nat j)) \<and>
           (k < num_channels s \<longrightarrow> \<not> chan_playing (mix_channel s ! nat k))"
        using 1(1) [OF True pl] playing 1(2) True by simp
      then obtain k where k: "scan_free s (i + 1) = Inr k" "i + 1 \<le> k" "k \<le> num_channels s"
        "\<forall>j. i + 1 \<le> j \<and> j < k \<longrightarrow> chan_playing (mix_channel s ! nat j)"
        "k < num_channels s \<longrightarrow> \<not> chan_playing (mix_channel s ! nat k)"
        by blast
      have "\<forall>j. i \<le> j \<and> j < k \<longrightarrow> chan_playing (mix_channel s ! nat j)"
      proof (intro allI impI)
        fix j assume j: "i \<le> j \<and> j < k"
        show "chan_playing (mix_channel s ! nat j)"
        proof (cases "j = i")
          case True
          then show ?thesis using playing by simp
        next
          case False
          then show ?thesis using j k(4) by simp
        qed
      qed
      then show ?thesis
        using step k by auto
    qed
  qed
qed

lemma play_auto_assigns:
  assumes "chunks s p = Some ch0" and "checkchunkintegral (mixer s) ch0 = Inr ch" and "alen ch \<noteq> 0"
    and "0 \<le> reserved_channels s" and "reserved_channels s \<le> num_channels s"
  shows "\<exists>k. reserved_channels s \<le> k \<and> k \<le> num_channels s \<and>
           (\<forall>j. reserved_channels s \<le> j \<and> j < k \<longrightarrow> chan_playing (mix_channel s ! nat j)) \<and>
           (k < num_channels s \<longrightarrow>
              \<not> chan_playing (mix_channel s ! nat k) \<and>
              Mix_PlayChannelTimed s (- 1) (Some p) loops ticks sdl_ticks =
                Inr (s\<lparr>mix_channel := (mix_channel s)[nat k := (mix_channel s ! nat k)
                          \<lparr>samples := abuf ch, playing := int (alen ch), looping := loops,
                           chunk := Some p, paused := 0, fading := MIX_NO_FADING,
                           start_time := sdl_ticks,
                           expire := (if ticks > 0 then sdl_ticks + word_of_int ticks else 0)\<rparr>],
                        chunks := (chunks s)(p \<mapsto> ch)\<rparr>, k)) \<and>
           (k = num_channels s \<longrightarrow>
              Mix_PlayChannelTimed s (- 1) (Some p) loops ticks sdl_ticks =
                Inr (s\<lparr>chunks := (chunks s)(p \<mapsto> ch), sdl_error := ''No free channels available''\<rparr>, - 1))"
proof -
  let ?s0 = "s\<lparr>chunks := (chunks s)(p \<mapsto> ch)\<rparr>"
  have n0: "num_channels ?s0 = num_channels s"
    by (simp add: num_channels_def)
  from scan_free_result [of "reserved_channels ?s0" ?s0] assms(4,5) n0
  obtain k where k: "scan_free ?s0 (reserved_channels s) = Inr k" "reserved_channels s \<le> k"
    "k \<le> num_channels s"
    "\<forall>j. reserved_channels s \<le> j \<and> j < k \<longrightarrow> chan_playing (mix_channel s ! nat j)"
    "k < num_channels s \<longrightarrow> \<not> chan_playing (mix_channel s ! nat k)"
    by auto
  have k0: "0 \<le> k" using assms(4) k(2) by simp
  show ?thesis
    using assms(1,2,3) k k0 n0
    by (intro exI [of _ k]) (auto simp: Mix_PlayChannelTimed_def Let_def)
qed

lemma play_auto_scenario:
  "result_of (Mix_PlayChannelTimed (fst (Mix_ReserveChannels demo_loaded 2)) (- 1) (Some 1) 0 (- 1) 5) = Some 2"
  by (simp add: Mix_ReserveChannels_def result_of_def scan_free.simps demo_defs call_defs)

text \<open>
  C3. With more channels reserved than allocated (8 reserved, then the registry shrunk to
  4), no channel in \<open>[reserved_channels, num_channels)\<close> is free, and the play call with
  channel \<open>-1\<close> is to return \<open>-1\<close> with the error "No free channels available". The scan
  starts at index 8, its exit test \<^verbatim>\<open>i == num_channels\<close> does not hold, and the call
  returns 8: no error is set and no channel is bound.
\<close>
theorem play_auto_reserved_beyond_count:
  "num_channels demo_shrunk = 4 \<and> reserved_channels demo_shrunk = 8 \<and>
   result_of (Mix_PlayChannelTimed demo_shrunk (- 1) (Some 1) 0 (- 1) 5) = Some 8 \<and>
   sdl_error (state_of (Mix_PlayChannelTimed demo_shrunk (- 1) (Some 1) 0 (- 1) 5)) = [] \<and>
   mix_channel (state_of (Mix_PlayChannelTimed demo_shrunk (- 1) (Some 1) 0 (- 1) 5)) =
     mix_channel demo_shrunk"
  by (simp add: demo_shrunk_def Mix_AllocateChannels_def Mix_ReserveChannels_def
      Mix_UnregisterAllEffects_def Mix_HaltChannel_def Mix_HaltChannel_locked_def halt_channel_def
      Mix_remove_all_effects_def MIX_CHANNEL_POST_def
      result_of_def scan_free.simps demo_defs call_defs)

subsection \<open>Frame alignment of chunks\<close>

lemmas mix_defs = mixed_state_def mix_channels_def mix_one_channel_def mix_fade_step_def
  mix_render_def mix_play_loop.simps mix_loop_again.simps mix_volume_def c_div_def
  channel_done_playing_def Mix_remove_all_effects_def

text \<open>What \<^verbatim>\<open>checkchunkintegral\<close> does with its own frame width, which is the frame size
  for 8-bit and 16-bit sample formats; and the reads of the rendering, which stay within
  the chunk's buffer as long as the cursor invariant holds.\<close>

lemma trim_alen_eq:
  "0 < fw \<Longrightarrow> trim_alen fw a = a - a mod fw"
proof (induction fw a rule: trim_alen.induct)
  case (1 fw a)
  show ?case
  proof (cases "a mod fw = 0")
    case True
    then show ?thesis by (simp add: trim_alen.simps)
  next
    case False
    then have a: "0 < a" by (cases "a = 0") simp_all
    have m: "(a - 1) mod fw = a mod fw - 1"
      using False a 1(2) by (metis mod_Suc Suc_pred' diff_Suc_1 )
    have "trim_alen fw a = trim_alen fw (a - 1)"
      using False by (simp add: trim_alen.simps)
    also have "\<dots> = (a - 1) - (a - 1) mod fw"
      using 1 False by simp
    also have "\<dots> = a - a mod fw"
      using m False a by simp
    finally show ?thesis .
  qed
qed

lemma checkchunkintegral_trims:
  assumes "0 < frame_width m" and "frame_width m < 2 ^ 32"
  shows "checkchunkintegral m ch =
           Inr (ch\<lparr>alen := alen ch - alen ch mod nat (frame_width m)\<rparr>)"
  using assms by (simp add: checkchunkintegral_def Let_def trim_alen_eq)

lemma frame_width_16_bit:
  "format m AND 0xFF = 16 \<Longrightarrow> frame_width m = frame_size_spec m"
  by (simp add: frame_width_def frame_size_spec_def)

lemma frame_width_8_bit:
  "format m AND 0xFF = 8 \<Longrightarrow> frame_width m = frame_size_spec m"
  by (simp add: frame_width_def frame_size_spec_def)

lemma play_rejects_empty:
  assumes "chunks s p = Some ch0" and "checkchunkintegral (mixer s) ch0 = Inr ch" and "alen ch = 0"
  shows "Mix_PlayChannelTimed s which (Some p) loops ticks sdl_ticks =
           Inr (s\<lparr>chunks := (chunks s)(p \<mapsto> ch),
                   sdl_error := ''Tried to play a chunk with a bad frame''\<rparr>, - 1)"
  using assms by (simp add: Mix_PlayChannelTimed_def)

lemma channel_done_playing_cursor [simp]:
  "cursor_ok ch (fst (channel_done_playing cb i c evs)) = cursor_ok ch c"
  by (simp add: channel_done_playing_def Mix_remove_all_effects_def cursor_ok_def)

lemma done_events_within: "list_all (read_within ch) (done_events i es)"
  by (induction es) (auto split: option.splits)

lemma channel_done_playing_within:
  "list_all (read_within ch) evs \<Longrightarrow>
   list_all (read_within ch) (snd (channel_done_playing cb i c evs))"
  by (cases cb) (simp_all add: channel_done_playing_def Mix_remove_all_effects_def done_events_within)

lemma mix_play_loop_within:
  "cursor_ok ch c \<Longrightarrow> list_all (read_within ch) evs \<Longrightarrow>
   cursor_ok ch (fst (mix_play_loop cb master_vol i len ch c evs index vol)) \<and>
   list_all (read_within ch) (fst (snd (mix_play_loop cb master_vol i len ch c evs index vol)))"
proof (induction cb master_vol i len ch c evs index vol rule: mix_play_loop.induct)
  case (1 cb master_vol i len ch c evs index vol)
  show ?case
  proof (cases "playing c > 0 \<and> index < len")
    case False
    then have "mix_play_loop cb master_vol i len ch c evs index vol = (c, evs, index, vol)"
      by (subst mix_play_loop.simps) auto
    then show ?thesis
      using 1(3,4) by simp
  next
    case True
    define mixable where "mixable = (if playing c > len - index then len - index else playing c)"
    define c1 where "c1 = c\<lparr>samples := samples c + mixable, playing := playing c - mixable\<rparr>"
    define evs1 where "evs1 = evs @ [Mixed i (samples c) mixable index vol]"
    have m: "0 < mixable" "mixable \<le> playing c"
      using True by (auto simp: mixable_def)
    have ok1: "cursor_ok ch c1"
      using 1(3) m by (simp add: c1_def cursor_ok_def)
    have w1: "list_all (read_within ch) evs1"
      using 1(3,4) m by (simp add: evs1_def cursor_ok_def)
    show ?thesis
    proof (cases "playing c1 = 0 \<and> looping c1 = 0")
      case fin: True
      define d where "d = channel_done_playing cb i (c1\<lparr>fading := MIX_NO_FADING, expire := 0\<rparr>) evs1"
      have "cursor_ok ch (c1\<lparr>fading := MIX_NO_FADING, expire := 0\<rparr>)"
        using ok1 by (simp add: cursor_ok_def)
      then have okd: "cursor_ok ch (fst d)"
        by (simp add: d_def)
      have wd: "list_all (read_within ch) (snd d)"
        using w1 by (simp add: d_def channel_done_playing_within)
      have unfold: "mix_play_loop cb master_vol i len ch c evs index vol =
          mix_play_loop cb master_vol i len ch (fst d) (snd d) (index + mixable)
            (mix_volume master_vol (fst d) ch)"
        using True fin
        by (subst mix_play_loop.simps) (simp add: Let_def mixable_def c1_def evs1_def d_def)
      show ?thesis
        unfolding unfold
        using 1(1) [OF True mixable_def c1_def evs1_def fin d_def okd wd] .
    next
      case cont: False
      have unfold: "mix_play_loop cb master_vol i len ch c evs index vol =
          mix_play_loop cb master_vol i len ch c1 evs1 (index + mixable) vol"
        using True cont
        by (subst mix_play_loop.simps) (simp add: Let_def mixable_def c1_def evs1_def)
      show ?thesis
        unfolding unfold
        using 1(2) [OF True mixable_def c1_def evs1_def cont ok1 w1] .
    qed
  qed
qed

lemma mix_loop_again_within:
  "cursor_ok ch c \<Longrightarrow> list_all (read_within ch) evs \<Longrightarrow>
   mix_loop_again i len ch vol c evs index = Inr (c', evs', index') \<Longrightarrow>
   cursor_ok ch c' \<and> list_all (read_within ch) evs'"
proof (induction i len ch vol c evs index rule: mix_loop_again.induct)
  case (1 i len ch vol c evs index)
  show ?case
  proof (cases "looping c \<noteq> 0 \<and> index < len")
    case False
    then have "mix_loop_again i len ch vol c evs index = Inr (c, evs, index)"
      by (subst mix_loop_again.simps) auto
    then show ?thesis using 1(2,3,4) by simp
  next
    case True
    define remaining where "remaining = (if len - index > int (alen ch) then int (alen ch) else len - index)"
    define c1 where "c1 = c\<lparr>looping := (if looping c > 0 then looping c - 1 else looping c),
        samples := abuf ch + remaining, playing := int (alen ch) - remaining\<rparr>"
    define evs1 where "evs1 = evs @ [Mixed i (abuf ch) remaining index vol]"
    have r: "0 \<le> remaining" "remaining \<le> int (alen ch)"
      using True by (auto simp: remaining_def)
    have ok1: "cursor_ok ch c1"
      using r by (simp add: c1_def cursor_ok_def)
    have w1: "list_all (read_within ch) evs1"
      using 1(3) r by (simp add: evs1_def)
    show ?thesis
    proof (cases "remaining = 0 \<and> looping c < 0")
      case True
      then have "mix_loop_again i len ch vol c evs index = Inl NoReturn"
        using \<open>looping c \<noteq> 0 \<and> index < len\<close>
        by (subst mix_loop_again.simps) (simp add: Let_def remaining_def)
      then show ?thesis using 1(4) by simp
    next
      case False
      have unfold: "mix_loop_again i len ch vol c evs index =
          mix_loop_again i len ch vol c1 evs1 (index + remaining)"
        using True False
        by (subst mix_loop_again.simps) (auto simp: Let_def remaining_def c1_def evs1_def)
      show ?thesis
        using 1(1) [OF True remaining_def False ok1 [unfolded c1_def] w1 [unfolded evs1_def]]
          1(4) unfold
        by (simp add: c1_def evs1_def)
    qed
  qed
qed

lemma mix_render_within:
  assumes "chunk c = Some p" and "chs p = Some ch" and "cursor_ok ch c"
    and "list_all (read_within ch) evs"
    and "mix_render chs cb master_vol i len c evs = Inr (c', evs')"
  shows "cursor_ok ch c' \<and> list_all (read_within ch) evs'"
proof (cases "0 < playing c")
  case False
  then show ?thesis using assms by (simp add: mix_render_def)
next
  case True
  obtain c1 evs1 index1 vol1 where
    l1: "mix_play_loop cb master_vol i len ch c evs 0 (mix_volume master_vol c ch) = (c1, evs1, index1, vol1)"
    by (cases "mix_play_loop cb master_vol i len ch c evs 0 (mix_volume master_vol c ch)") blast
  have s1: "cursor_ok ch c1 \<and> list_all (read_within ch) evs1"
    using mix_play_loop_within [OF assms(3,4), of cb master_vol i len 0 "mix_volume master_vol c ch"] l1
    by simp
  from assms(5) True assms(1,2) l1
  obtain c2 evs2 index2 where l2: "mix_loop_again i len ch vol1 c1 evs1 index1 = Inr (c2, evs2, index2)"
    and res: "c' = (if playing c2 = 0 \<and> looping c2 \<noteq> 0
                 then c2\<lparr>looping := (if looping c2 > 0 then looping c2 - 1 else looping c2),
                         samples := abuf ch, playing := int (alen ch)\<rparr>
                 else c2)" "evs' = evs2"
    by (auto simp: mix_render_def split: sum.splits)
  have s2: "cursor_ok ch c2 \<and> list_all (read_within ch) evs2"
    using mix_loop_again_within [OF _ _ l2] s1 by blast
  show ?thesis
    using s2 res by (auto simp: cursor_ok_def)
qed

text \<open>
  C8. On a 32-bit float stereo mixer a frame is 8 bytes. \<^verbatim>\<open>checkchunkintegral\<close> takes the
  sample width to be 1 byte for every format that is not 16-bit, so its frame width is 2:
  a chunk of 10 bytes is accepted with all 10 bytes, not truncated to 8, and the mixing
  callback reads the 10 bytes, two of them past the last whole frame.
\<close>
theorem f32_chunk_not_frame_aligned:
  "frame_size_spec spec_f32_stereo = 8 \<and>
   checkchunkintegral spec_f32_stereo f32_chunk = Inr f32_chunk \<and>
   int (alen f32_chunk) mod frame_size_spec spec_f32_stereo = 2 \<and>
   result_of (Mix_PlayChannelTimed f32_loaded 0 (Some 1) 0 (- 1) 5) = Some 0 \<and>
   events (mixed_state f32_started (mix_channels f32_started True 64 6)) = [Mixed 0 4096 10 0 128]"
  by (simp add: frame_size_spec_def spec_f32_stereo_def f32_chunk_def f32_loaded_def f32_started_def
      result_of_def opened_mixer_def MIX_CHANNELS_def replicate_8 init_channel_def call_defs mix_defs
      MIX_MAX_VOLUME_def)

subsection \<open>Looping\<close>

text \<open>With callbacks of 4 bytes each, every traversal ends in the first loop of the
  rendering, and the end of playback is reported after the third.\<close>

lemma loop_finished_reported_when_split:
  "events loop_mixed_split =
     [Mixed 0 4096 4 0 128, Mixed 0 4096 4 0 128, Mixed 0 4096 4 0 128, ChannelFinished 7 0] \<and>
   Mix_Playing loop_mixed_split 0 = Inr 0"
  by (simp add: loop_mixed_split_def loop_started_def loop_loaded_def loop_chunk_def
      result_of_def opened_mixer_def MIX_CHANNELS_def replicate_8 init_channel_def call_defs mix_defs
      MIX_MAX_VOLUME_def spec_s16_stereo_def)

text \<open>
  C2. A chunk of 4 bytes is started with 2 repeats and the callback is asked for 12 bytes.
  The chunk is read three times, back to back at output offsets 0, 4 and 8, and the
  channel is idle afterwards; but both repeats are rendered by the second loop of the
  rendering, which never reports the end of playback: the channel-finished callback is not
  called. The mixer is then a fixed point of the callback, whatever the length asked for
  and the tick, so the callback is not called later either.
\<close>
theorem loop_finished_never_reported:
  "result_of (Mix_PlayChannelTimed loop_loaded 0 (Some 1) 2 (- 1) 5) = Some 0 \<and>
   mix_channels loop_started True 12 6 = Inr loop_mixed \<and>
   events loop_mixed = [Mixed 0 4096 4 0 128, Mixed 0 4096 4 4 128, Mixed 0 4096 4 8 128] \<and>
   Mix_Playing loop_mixed 0 = Inr 0 \<and>
   mix_channels loop_mixed buf_ok len sdl_ticks = Inr loop_mixed"
  by (simp add: loop_mixed_def loop_started_def loop_loaded_def loop_chunk_def
      result_of_def opened_mixer_def MIX_CHANNELS_def replicate_8 init_channel_def call_defs mix_defs
      MIX_MAX_VOLUME_def spec_s16_stereo_def)

subsection \<open>Oldest and newest channel of a group\<close>

lemma oldest_loop_none:
  "\<forall>c\<in>set cs. \<not> (group_match tg c \<and> start_time c \<le> m) \<Longrightarrow>
   GroupOldest_loop tg cs i m ch = ch"
  by (induction cs arbitrary: i) (auto simp: group_match_def)

lemma oldest_loop_some:
  "\<exists>c\<in>set cs. group_match tg c \<and> start_time c \<le> m \<Longrightarrow>
   \<exists>k<length cs. GroupOldest_loop tg cs i m ch = i + int k \<and>
      group_match tg (cs ! k) \<and> start_time (cs ! k) \<le> m \<and>
      (\<forall>j<length cs. group_match tg (cs ! j) \<and> start_time (cs ! j) \<le> m \<longrightarrow>
          start_time (cs ! k) \<le> start_time (cs ! j) \<and>
          (start_time (cs ! j) = start_time (cs ! k) \<longrightarrow> j \<le> k))"
proof (induction cs arbitrary: i m ch)
  case Nil
  then show ?case by simp
next
  case (Cons c cs)
  show ?case
  proof (cases "group_match tg c \<and> start_time c \<le> m")
    case True
    then have step: "GroupOldest_loop tg (c # cs) i m ch = GroupOldest_loop tg cs (i + 1) (start_time c) i"
      by (simp add: group_match_def)
    show ?thesis
    proof (cases "\<exists>c'\<in>set cs. group_match tg c' \<and> start_time c' \<le> start_time c")
      case later: True
      from Cons.IH [OF later, of "i + 1" i]
      obtain k where k: "k < length cs"
        "GroupOldest_loop tg cs (i + 1) (start_time c) i = i + 1 + int k"
        "group_match tg (cs ! k)" "start_time (cs ! k) \<le> start_time c"
        "\<forall>j<length cs. group_match tg (cs ! j) \<and> start_time (cs ! j) \<le> start_time c \<longrightarrow>
            start_time (cs ! k) \<le> start_time (cs ! j) \<and>
            (start_time (cs ! j) = start_time (cs ! k) \<longrightarrow> j \<le> k)"
        by blast
      have all: "\<forall>j<length (c # cs). group_match tg ((c # cs) ! j) \<and> start_time ((c # cs) ! j) \<le> m \<longrightarrow>
            start_time ((c # cs) ! Suc k) \<le> start_time ((c # cs) ! j) \<and>
            (start_time ((c # cs) ! j) = start_time ((c # cs) ! Suc k) \<longrightarrow> j \<le> Suc k)"
      proof (intro allI impI)
        fix j assume j: "j < length (c # cs)"
          and e: "group_match tg ((c # cs) ! j) \<and> start_time ((c # cs) ! j) \<le> m"
        show "start_time ((c # cs) ! Suc k) \<le> start_time ((c # cs) ! j) \<and>
            (start_time ((c # cs) ! j) = start_time ((c # cs) ! Suc k) \<longrightarrow> j \<le> Suc k)"
        proof (cases j)
          case 0
          then show ?thesis using k(4) by simp
        next
          case (Suc j')
          then have j': "j' < length cs" using j by simp
          show ?thesis
          proof (cases "start_time (cs ! j') \<le> start_time c")
            case True
            then show ?thesis using k(5) [rule_format, of j'] j' e Suc by simp
          next
            case False
            then have "start_time (cs ! k) < start_time (cs ! j')"
              using k(4) by simp
            then have "start_time (cs ! k) \<le> start_time (cs ! j')"
              and "start_time (cs ! j') \<noteq> start_time (cs ! k)"
              by auto
            then show ?thesis using Suc by simp
          qed
        qed
      qed
      have "Suc k < length (c # cs)" using k(1) by simp
      moreover have "GroupOldest_loop tg (c # cs) i m ch = i + int (Suc k)"
        using step k(2) by simp
      moreover have "group_match tg ((c # cs) ! Suc k)" using k(3) by simp
      moreover have "start_time ((c # cs) ! Suc k) \<le> m"
        using k(4) True order_trans [of "start_time (cs ! k)" "start_time c" m] by simp
      ultimately show ?thesis using all by blast
    next
      case none: False
      then have res: "GroupOldest_loop tg (c # cs) i m ch = i + int 0"
        using step oldest_loop_none [of cs tg "start_time c" "i + 1" i] by simp
      have all: "\<forall>j<length (c # cs). group_match tg ((c # cs) ! j) \<and> start_time ((c # cs) ! j) \<le> m \<longrightarrow>
            start_time ((c # cs) ! 0) \<le> start_time ((c # cs) ! j) \<and>
            (start_time ((c # cs) ! j) = start_time ((c # cs) ! 0) \<longrightarrow> j \<le> 0)"
      proof (intro allI impI)
        fix j assume j: "j < length (c # cs)"
          and e: "group_match tg ((c # cs) ! j) \<and> start_time ((c # cs) ! j) \<le> m"
        show "start_time ((c # cs) ! 0) \<le> start_time ((c # cs) ! j) \<and>
            (start_time ((c # cs) ! j) = start_time ((c # cs) ! 0) \<longrightarrow> j \<le> 0)"
        proof (cases j)
          case 0
          then show ?thesis by simp
        next
          case (Suc j')
          then have j': "j' < length cs" using j by simp
          then have "cs ! j' \<in> set cs" by simp
          then have "\<not> start_time (cs ! j') \<le> start_time c"
            using none e Suc by auto
          then have "start_time c \<le> start_time (cs ! j')"
            and "start_time (cs ! j') \<noteq> start_time c"
            by auto
          then show ?thesis using Suc by simp
        qed
      qed
      have "0 < length (c # cs)" by simp
      moreover have "group_match tg ((c # cs) ! 0) \<and> start_time ((c # cs) ! 0) \<le> m"
        using True by simp
      ultimately show ?thesis using res all by blast
    qed
  next
    case False
    then have step: "GroupOldest_loop tg (c # cs) i m ch = GroupOldest_loop tg cs (i + 1) m ch"
      by (auto simp: group_match_def)
    from Cons.prems False have ex: "\<exists>c'\<in>set cs. group_match tg c' \<and> start_time c' \<le> m"
      by auto
    from Cons.IH [OF ex, of "i + 1" ch]
    obtain k where k: "k < length cs"
      "GroupOldest_loop tg cs (i + 1) m ch = i + 1 + int k"
      "group_match tg (cs ! k)" "start_time (cs ! k) \<le> m"
      "\<forall>j<length cs. group_match tg (cs ! j) \<and> start_time (cs ! j) \<le> m \<longrightarrow>
          start_time (cs ! k) \<le> start_time (cs ! j) \<and>
          (start_time (cs ! j) = start_time (cs ! k) \<longrightarrow> j \<le> k)"
      by blast
    have all: "\<forall>j<length (c # cs). group_match tg ((c # cs) ! j) \<and> start_time ((c # cs) ! j) \<le> m \<longrightarrow>
          start_time ((c # cs) ! Suc k) \<le> start_time ((c # cs) ! j) \<and>
          (start_time ((c # cs) ! j) = start_time ((c # cs) ! Suc k) \<longrightarrow> j \<le> Suc k)"
    proof (intro allI impI)
      fix j assume j: "j < length (c # cs)"
        and e: "group_match tg ((c # cs) ! j) \<and> start_time ((c # cs) ! j) \<le> m"
      show "start_time ((c # cs) ! Suc k) \<le> start_time ((c # cs) ! j) \<and>
          (start_time ((c # cs) ! j) = start_time ((c # cs) ! Suc k) \<longrightarrow> j \<le> Suc k)"
      proof (cases j)
        case 0
        then show ?thesis using False e by simp
      next
        case (Suc j')
        then have "j' < length cs" using j by simp
        then show ?thesis using k(5) [rule_format, of j'] e Suc by simp
      qed
    qed
    have "Suc k < length (c # cs)" using k(1) by simp
    moreover have "GroupOldest_loop tg (c # cs) i m ch = i + int (Suc k)"
      using step k(2) by simp
    moreover have "group_match tg ((c # cs) ! Suc k) \<and> start_time ((c # cs) ! Suc k) \<le> m"
      using k(3,4) by simp
    ultimately show ?thesis using all by blast
  qed
qed

lemma newer_loop_none:
  "\<forall>c\<in>set cs. \<not> (group_match tg c \<and> m \<le> start_time c) \<Longrightarrow>
   GroupNewer_loop tg cs i m ch = ch"
  by (induction cs arbitrary: i) (auto simp: group_match_def)

lemma newer_loop_some:
  "\<exists>c\<in>set cs. group_match tg c \<and> m \<le> start_time c \<Longrightarrow>
   \<exists>k<length cs. GroupNewer_loop tg cs i m ch = i + int k \<and>
      group_match tg (cs ! k) \<and> m \<le> start_time (cs ! k) \<and>
      (\<forall>j<length cs. group_match tg (cs ! j) \<and> m \<le> start_time (cs ! j) \<longrightarrow>
          start_time (cs ! j) \<le> start_time (cs ! k) \<and>
          (start_time (cs ! j) = start_time (cs ! k) \<longrightarrow> j \<le> k))"
proof (induction cs arbitrary: i m ch)
  case Nil
  then show ?case by simp
next
  case (Cons c cs)
  show ?case
  proof (cases "group_match tg c \<and> m \<le> start_time c")
    case True
    then have step: "GroupNewer_loop tg (c # cs) i m ch = GroupNewer_loop tg cs (i + 1) (start_time c) i"
      by (simp add: group_match_def)
    show ?thesis
    proof (cases "\<exists>c'\<in>set cs. group_match tg c' \<and> start_time c \<le> start_time c'")
      case later: True
      from Cons.IH [OF later, of "i + 1" i]
      obtain k where k: "k < length cs"
        "GroupNewer_loop tg cs (i + 1) (start_time c) i = i + 1 + int k"
        "group_match tg (cs ! k)" "start_time c \<le> start_time (cs ! k)"
        "\<forall>j<length cs. group_match tg (cs ! j) \<and> start_time c \<le> start_time (cs ! j) \<longrightarrow>
            start_time (cs ! j) \<le> start_time (cs ! k) \<and>
            (start_time (cs ! j) = start_time (cs ! k) \<longrightarrow> j \<le> k)"
        by blast
      have all: "\<forall>j<length (c # cs). group_match tg ((c # cs) ! j) \<and> m \<le> start_time ((c # cs) ! j) \<longrightarrow>
            start_time ((c # cs) ! j) \<le> start_time ((c # cs) ! Suc k) \<and>
            (start_time ((c # cs) ! j) = start_time ((c # cs) ! Suc k) \<longrightarrow> j \<le> Suc k)"
      proof (intro allI impI)
        fix j assume j: "j < length (c # cs)"
          and e: "group_match tg ((c # cs) ! j) \<and> m \<le> start_time ((c # cs) ! j)"
        show "start_time ((c # cs) ! j) \<le> start_time ((c # cs) ! Suc k) \<and>
            (start_time ((c # cs) ! j) = start_time ((c # cs) ! Suc k) \<longrightarrow> j \<le> Suc k)"
        proof (cases j)
          case 0
          then show ?thesis using k(4) by simp
        next
          case (Suc j')
          then have j': "j' < length cs" using j by simp
          show ?thesis
          proof (cases "start_time c \<le> start_time (cs ! j')")
            case True
            then show ?thesis using k(5) [rule_format, of j'] j' e Suc by simp
          next
            case False
            then have "start_time (cs ! j') < start_time (cs ! k)"
              using k(4) by simp
            then have "start_time (cs ! j') \<le> start_time (cs ! k)"
              and "start_time (cs ! j') \<noteq> start_time (cs ! k)"
              by auto
            then show ?thesis using Suc by simp
          qed
        qed
      qed
      have "Suc k < length (c # cs)" using k(1) by simp
      moreover have "GroupNewer_loop tg (c # cs) i m ch = i + int (Suc k)"
        using step k(2) by simp
      moreover have "group_match tg ((c # cs) ! Suc k)" using k(3) by simp
      moreover have "m \<le> start_time ((c # cs) ! Suc k)"
        using k(4) True order_trans [of m "start_time c" "start_time (cs ! k)"] by simp
      ultimately show ?thesis using all by blast
    next
      case none: False
      then have res: "GroupNewer_loop tg (c # cs) i m ch = i + int 0"
        using step newer_loop_none [of cs tg "start_time c" "i + 1" i] by simp
      have all: "\<forall>j<length (c # cs). group_match tg ((c # cs) ! j) \<and> m \<le> start_time ((c # cs) ! j) \<longrightarrow>
            start_time ((c # cs) ! j) \<le> start_time ((c # cs) ! 0) \<and>
            (start_time ((c # cs) ! j) = start_time ((c # cs) ! 0) \<longrightarrow> j \<le> 0)"
      proof (intro allI impI)
        fix j assume j: "j < length (c # cs)"
          and e: "group_match tg ((c # cs) ! j) \<and> m \<le> start_time ((c # cs) ! j)"
        show "start_time ((c # cs) ! j) \<le> start_time ((c # cs) ! 0) \<and>
            (start_time ((c # cs) ! j) = start_time ((c # cs) ! 0) \<longrightarrow> j \<le> 0)"
        proof (cases j)
          case 0
          then show ?thesis by simp
        next
          case (Suc j')
          then have j': "j' < length cs" using j by simp
          then have "cs ! j' \<in> set cs" by simp
          then have "\<not> start_time c \<le> start_time (cs ! j')"
            using none e Suc by auto
          then have "start_time (cs ! j') \<le> start_time c"
            and "start_time (cs ! j') \<noteq> start_time c"
            by auto
          then show ?thesis using Suc by simp
        qed
      qed
      have "0 < length (c # cs)" by simp
      moreover have "group_match tg ((c # cs) ! 0) \<and> m \<le> start_time ((c # cs) ! 0)"
        using True by simp
      ultimately show ?thesis using res all by blast
    qed
  next
    case False
    then have step: "GroupNewer_loop tg (c # cs) i m ch = GroupNewer_loop tg cs (i + 1) m ch"
      by (auto simp: group_match_def)
    from Cons.prems False have ex: "\<exists>c'\<in>set cs. group_match tg c' \<and> m \<le> start_time c'"
      by auto
    from Cons.IH [OF ex, of "i + 1" ch]
    obtain k where k: "k < length cs"
      "GroupNewer_loop tg cs (i + 1) m ch = i + 1 + int k"
      "group_match tg (cs ! k)" "m \<le> start_time (cs ! k)"
      "\<forall>j<length cs. group_match tg (cs ! j) \<and> m \<le> start_time (cs ! j) \<longrightarrow>
          start_time (cs ! j) \<le> start_time (cs ! k) \<and>
          (start_time (cs ! j) = start_time (cs ! k) \<longrightarrow> j \<le> k)"
      by blast
    have all: "\<forall>j<length (c # cs). group_match tg ((c # cs) ! j) \<and> m \<le> start_time ((c # cs) ! j) \<longrightarrow>
          start_time ((c # cs) ! j) \<le> start_time ((c # cs) ! Suc k) \<and>
          (start_time ((c # cs) ! j) = start_time ((c # cs) ! Suc k) \<longrightarrow> j \<le> Suc k)"
    proof (intro allI impI)
      fix j assume j: "j < length (c # cs)"
        and e: "group_match tg ((c # cs) ! j) \<and> m \<le> start_time ((c # cs) ! j)"
      show "start_time ((c # cs) ! j) \<le> start_time ((c # cs) ! Suc k) \<and>
          (start_time ((c # cs) ! j) = start_time ((c # cs) ! Suc k) \<longrightarrow> j \<le> Suc k)"
      proof (cases j)
        case 0
        then show ?thesis using False e by simp
      next
        case (Suc j')
        then have "j' < length cs" using j by simp
        then show ?thesis using k(5) [rule_format, of j'] e Suc by simp
      qed
    qed
    have "Suc k < length (c # cs)" using k(1) by simp
    moreover have "GroupNewer_loop tg (c # cs) i m ch = i + int (Suc k)"
      using step k(2) by simp
    moreover have "group_match tg ((c # cs) ! Suc k) \<and> m \<le> start_time ((c # cs) ! Suc k)"
      using k(3,4) by simp
    ultimately show ?thesis using all by blast
  qed
qed

text \<open>\<^verbatim>\<open>Mix_GroupOldest\<close> starts its search from the current tick: a channel stamped with a
  later start time would not be found.\<close>

lemma group_oldest_ignores_later_start:
  "Mix_GroupOldest demo_two_playing (- 1) 3 = - 1"
  by (simp add: demo_two_playing_def demo_playing_def demo_defs call_defs Mix_GroupOldest_def
      channel_done_playing_def Mix_remove_all_effects_def)

text \<open>
  C5, as the claim states it, fails on ties: with channels 0 and 1 both playing and both
  started at tick 5, the oldest channel reported is 1, the highest index with the minimal
  start timestamp, not the lowest.
\<close>
theorem group_oldest_tie_counterexample:
  "Mix_Playing demo_two_playing 0 = Inr 1 \<and> Mix_Playing demo_two_playing 1 = Inr 1 \<and>
   start_time (mix_channel demo_two_playing ! 0) = 5 \<and>
   start_time (mix_channel demo_two_playing ! 1) = 5 \<and>
   Mix_Playing demo_two_playing (- 1) = Inr 2 \<and>
   Mix_GroupOldest demo_two_playing (- 1) 9 = 1"
  by (simp add: demo_two_playing_def demo_playing_def demo_defs call_defs Mix_GroupOldest_def
      channel_done_playing_def Mix_remove_all_effects_def)

text \<open>
  C5, amended. Let no playing channel of the group have a start timestamp later than the
  current tick (the clock is monotonic). When no active channel matches the tag, both
  queries return \<open>-1\<close>. Otherwise \<open>group_oldest\<close> returns the index of an active matching
  channel with the minimum start timestamp and \<open>group_newest\<close> one with the maximum start
  timestamp, and when several active matching channels share that timestamp, each query
  returns the highest such channel index.
\<close>
theorem group_oldest_newest:
  assumes "\<forall>c\<in>set (mix_channel s). group_match tg c \<longrightarrow> start_time c \<le> sdl_ticks"
  shows "((\<forall>c\<in>set (mix_channel s). \<not> group_match tg c) \<longrightarrow>
            Mix_GroupOldest s tg sdl_ticks = - 1 \<and> Mix_GroupNewer s tg = - 1) \<and>
         ((\<exists>c\<in>set (mix_channel s). group_match tg c) \<longrightarrow>
            (\<exists>k n. k < length (mix_channel s) \<and> n < length (mix_channel s) \<and>
               Mix_GroupOldest s tg sdl_ticks = int k \<and> Mix_GroupNewer s tg = int n \<and>
               group_match tg (mix_channel s ! k) \<and> group_match tg (mix_channel s ! n) \<and>
               (\<forall>j<length (mix_channel s). group_match tg (mix_channel s ! j) \<longrightarrow>
                  start_time (mix_channel s ! k) \<le> start_time (mix_channel s ! j) \<and>
                  (start_time (mix_channel s ! j) = start_time (mix_channel s ! k) \<longrightarrow> j \<le> k) \<and>
                  start_time (mix_channel s ! j) \<le> start_time (mix_channel s ! n) \<and>
                  (start_time (mix_channel s ! j) = start_time (mix_channel s ! n) \<longrightarrow> j \<le> n))))"
proof (intro conjI impI)
  assume none: "\<forall>c\<in>set (mix_channel s). \<not> group_match tg c"
  then show "Mix_GroupOldest s tg sdl_ticks = - 1"
    by (simp add: Mix_GroupOldest_def oldest_loop_none)
  from none show "Mix_GroupNewer s tg = - 1"
    by (simp add: Mix_GroupNewer_def newer_loop_none)
next
  let ?cs = "mix_channel s"
  assume some: "\<exists>c\<in>set ?cs. group_match tg c"
  with assms have ex_old: "\<exists>c\<in>set ?cs. group_match tg c \<and> start_time c \<le> sdl_ticks"
    by blast
  from some have ex_new: "\<exists>c\<in>set ?cs. group_match tg c \<and> 0 \<le> start_time c"
    by simp
  from oldest_loop_some [OF ex_old, of 0 "- 1"]
  obtain k where k: "k < length ?cs" "GroupOldest_loop tg ?cs 0 sdl_ticks (- 1) = 0 + int k"
    "group_match tg (?cs ! k)"
    "\<forall>j<length ?cs. group_match tg (?cs ! j) \<and> start_time (?cs ! j) \<le> sdl_ticks \<longrightarrow>
        start_time (?cs ! k) \<le> start_time (?cs ! j) \<and>
        (start_time (?cs ! j) = start_time (?cs ! k) \<longrightarrow> j \<le> k)"
    by blast
  from newer_loop_some [OF ex_new, of 0 "- 1"]
  obtain n where n: "n < length ?cs" "GroupNewer_loop tg ?cs 0 0 (- 1) = 0 + int n"
    "group_match tg (?cs ! n)"
    "\<forall>j<length ?cs. group_match tg (?cs ! j) \<and> 0 \<le> start_time (?cs ! j) \<longrightarrow>
        start_time (?cs ! j) \<le> start_time (?cs ! n) \<and>
        (start_time (?cs ! j) = start_time (?cs ! n) \<longrightarrow> j \<le> n)"
    by blast
  have all: "\<forall>j<length ?cs. group_match tg (?cs ! j) \<longrightarrow>
      start_time (?cs ! k) \<le> start_time (?cs ! j) \<and>
      (start_time (?cs ! j) = start_time (?cs ! k) \<longrightarrow> j \<le> k) \<and>
      start_time (?cs ! j) \<le> start_time (?cs ! n) \<and>
      (start_time (?cs ! j) = start_time (?cs ! n) \<longrightarrow> j \<le> n)"
  proof (intro allI impI)
    fix j assume j: "j < length ?cs" and g: "group_match tg (?cs ! j)"
    from j have "?cs ! j \<in> set ?cs" by simp
    with assms g have le: "start_time (?cs ! j) \<le> sdl_ticks" by blast
    show "start_time (?cs ! k) \<le> start_time (?cs ! j) \<and>
      (start_time (?cs ! j) = start_time (?cs ! k) \<longrightarrow> j \<le> k) \<and>
      start_time (?cs ! j) \<le> start_time (?cs ! n) \<and>
      (start_time (?cs ! j) = start_time (?cs ! n) \<longrightarrow> j \<le> n)"
      using k(4) [rule_format, of j] n(4) [rule_format, of j] j g le by simp
  qed
  have "Mix_GroupOldest s tg sdl_ticks = int k"
    using k(2) by (simp add: Mix_GroupOldest_def)
  moreover have "Mix_GroupNewer s tg = int n"
    using n(2) by (simp add: Mix_GroupNewer_def)
  ultimately show "\<exists>k n. k < length ?cs \<and> n < length ?cs \<and>
       Mix_GroupOldest s tg sdl_ticks = int k \<and> Mix_GroupNewer s tg = int n \<and>
       group_match tg (?cs ! k) \<and> group_match tg (?cs ! n) \<and>
       (\<forall>j<length ?cs. group_match tg (?cs ! j) \<longrightarrow>
          start_time (?cs ! k) \<le> start_time (?cs ! j) \<and>
          (start_time (?cs ! j) = start_time (?cs ! k) \<longrightarrow> j \<le> k) \<and>
          start_time (?cs ! j) \<le> start_time (?cs ! n) \<and>
          (start_time (?cs ! j) = start_time (?cs ! n) \<longrightarrow> j \<le> n))"
    using k(1,3) n(1,3) all by blast
qed

theorem group_oldest_newest_witness:
  "list_all (\<lambda>c. group_match (- 1) c \<longrightarrow> start_time c \<le> 9) (mix_channel demo_two_playing) \<and>
   (\<exists>c\<in>set (mix_channel demo_two_playing). group_match (- 1) c) \<and>
   (\<exists>k n. k < length (mix_channel demo_two_playing) \<and> n < length (mix_channel demo_two_playing) \<and>
      Mix_GroupOldest demo_two_playing (- 1) 9 = int k \<and>
      Mix_GroupNewer demo_two_playing (- 1) = int n \<and>
      group_match (- 1) (mix_channel demo_two_playing ! k) \<and>
      group_match (- 1) (mix_channel demo_two_playing ! n))"
proof -
  have chans: "mix_channel demo_two_playing =
      [init_channel\<lparr>chunk := Some 1, playing := 1000, samples := 4096, start_time := 5\<rparr>,
       init_channel\<lparr>chunk := Some 1, playing := 1000, samples := 4096, start_time := 5\<rparr>,
       init_channel, init_channel, init_channel, init_channel, init_channel, init_channel]"
    by (simp add: demo_two_playing_def demo_playing_def demo_defs call_defs
        channel_done_playing_def Mix_remove_all_effects_def)
  have h: "\<forall>c\<in>set (mix_channel demo_two_playing). group_match (- 1) c \<longrightarrow> start_time c \<le> 9"
    by (simp add: chans group_match_def chan_playing_def init_channel_def)
  have ex: "\<exists>c\<in>set (mix_channel demo_two_playing). group_match (- 1) c"
    by (simp add: chans group_match_def chan_playing_def init_channel_def)
  from group_oldest_newest [OF h] ex
  have "\<exists>k n. k < length (mix_channel demo_two_playing) \<and> n < length (mix_channel demo_two_playing) \<and>
      Mix_GroupOldest demo_two_playing (- 1) 9 = int k \<and>
      Mix_GroupNewer demo_two_playing (- 1) = int n \<and>
      group_match (- 1) (mix_channel demo_two_playing ! k) \<and>
      group_match (- 1) (mix_channel demo_two_playing ! n)"
    by blast
  then show ?thesis
    using h ex by (simp add: list_all_iff)
qed

subsection \<open>Allocating channels\<close>

lemma stop_channel_valid:
  assumes "i < length (mix_channel s)"
  shows "\<exists>s1. Mix_HaltChannel (fst (Mix_UnregisterAllEffects s (int i))) (int i) = Inr s1 \<and>
           length (mix_channel s1) = length (mix_channel s) \<and>
           sdl_error s1 = sdl_error s \<and>
           (\<forall>j. j \<noteq> i \<longrightarrow> mix_channel s1 ! j = mix_channel s ! j) \<and>
           \<not> chan_playing (mix_channel s1 ! i) \<and> effects (mix_channel s1 ! i) = [] \<and>
           fading (mix_channel s1 ! i) = MIX_NO_FADING \<and> expire (mix_channel s1 ! i) = 0"
  using assms
  by (auto simp: Mix_UnregisterAllEffects_def Mix_HaltChannel_def
      Mix_HaltChannel_locked_def chan_access_def chan_store_def halt_channel_def
      channel_done_playing_def Mix_remove_all_effects_def MIX_CHANNEL_POST_def num_channels_def
      chan_playing_def Let_def)

lemma stop_channels_valid:
  assumes "\<forall>i\<in>set is. i < length (mix_channel s)"
  shows "\<exists>s'. stop_channels s is = Inr s' \<and>
           length (mix_channel s') = length (mix_channel s) \<and>
           sdl_error s' = sdl_error s \<and>
           (\<forall>j. j \<notin> set is \<longrightarrow> mix_channel s' ! j = mix_channel s ! j) \<and>
           (\<forall>j\<in>set is. \<not> chan_playing (mix_channel s' ! j) \<and> effects (mix_channel s' ! j) = [] \<and>
              fading (mix_channel s' ! j) = MIX_NO_FADING \<and> expire (mix_channel s' ! j) = 0)"
  using assms
proof (induction "is" arbitrary: s)
  case Nil
  then show ?case by simp
next
  case (Cons i "is")
  from Cons.prems have i: "i < length (mix_channel s)" by simp
  from stop_channel_valid [OF i] obtain s1 where s1: "Mix_HaltChannel (fst (Mix_UnregisterAllEffects s (int i))) (int i) = Inr s1"
    "length (mix_channel s1) = length (mix_channel s)" "sdl_error s1 = sdl_error s"
    "\<forall>j. j \<noteq> i \<longrightarrow> mix_channel s1 ! j = mix_channel s ! j"
    "\<not> chan_playing (mix_channel s1 ! i)" "effects (mix_channel s1 ! i) = []"
    "fading (mix_channel s1 ! i) = MIX_NO_FADING" "expire (mix_channel s1 ! i) = 0"
    by blast
  have rest: "\<forall>i\<in>set is. i < length (mix_channel s1)"
    using Cons.prems s1(2) by simp
  from Cons.IH [OF rest] obtain s' where s': "stop_channels s1 is = Inr s'"
    "length (mix_channel s') = length (mix_channel s1)" "sdl_error s' = sdl_error s1"
    "\<forall>j. j \<notin> set is \<longrightarrow> mix_channel s' ! j = mix_channel s1 ! j"
    "\<forall>j\<in>set is. \<not> chan_playing (mix_channel s' ! j) \<and> effects (mix_channel s' ! j) = [] \<and>
        fading (mix_channel s' ! j) = MIX_NO_FADING \<and> expire (mix_channel s' ! j) = 0"
    by blast
  have run: "stop_channels s (i # is) = Inr s'"
    using s1(1) s'(1) by simp
  have keep: "\<forall>j. j \<notin> set (i # is) \<longrightarrow> mix_channel s' ! j = mix_channel s ! j"
    using s'(4) s1(4) by simp
  have stopped: "\<forall>j\<in>set (i # is). \<not> chan_playing (mix_channel s' ! j) \<and>
      effects (mix_channel s' ! j) = [] \<and> fading (mix_channel s' ! j) = MIX_NO_FADING \<and>
      expire (mix_channel s' ! j) = 0"
  proof
    fix j assume j: "j \<in> set (i # is)"
    show "\<not> chan_playing (mix_channel s' ! j) \<and> effects (mix_channel s' ! j) = [] \<and>
      fading (mix_channel s' ! j) = MIX_NO_FADING \<and> expire (mix_channel s' ! j) = 0"
    proof (cases "j \<in> set is")
      case True
      then show ?thesis using s'(5) by blast
    next
      case False
      then have "j = i" using j by simp
      then show ?thesis using False s'(4) s1(5,6,7,8) by simp
    qed
  qed
  show ?case
    using run s'(2,3) s1(2,3) keep stopped by auto
qed

lemma stop_channel_events:
  assumes "i < length (mix_channel s)"
  shows "\<exists>s1. Mix_HaltChannel (fst (Mix_UnregisterAllEffects s (int i))) (int i) = Inr s1 \<and>
           channel_done_callback s1 = channel_done_callback s \<and>
           events s1 = events s @
             concat (map (\<lambda>e. case done_callback e of None \<Rightarrow> []
                                | Some d \<Rightarrow> [EffectDone d (int i) (udata e)])
                       (effects (mix_channel s ! i))) @
             (if 0 < playing (mix_channel s ! i) \<or> looping (mix_channel s ! i) \<noteq> 0
              then (case channel_done_callback s of None \<Rightarrow> []
                    | Some f \<Rightarrow> [ChannelFinished f (int i)])
              else [])"
  using assms
  by (cases "channel_done_callback s")
    (auto simp: Mix_UnregisterAllEffects_def Mix_HaltChannel_def
      Mix_HaltChannel_locked_def chan_access_def chan_store_def halt_channel_def
      channel_done_playing_def Mix_remove_all_effects_def MIX_CHANNEL_POST_def num_channels_def
      chan_playing_def Let_def done_events_calls)

lemma stop_channels_events:
  assumes "\<forall>i\<in>set is. i < length (mix_channel s)" and "distinct is"
  shows "\<exists>s'. stop_channels s is = Inr s' \<and>
           channel_done_callback s' = channel_done_callback s \<and>
           events s' = events s @
             concat (map (\<lambda>j.
                 concat (map (\<lambda>e. case done_callback e of None \<Rightarrow> []
                                    | Some d \<Rightarrow> [EffectDone d (int j) (udata e)])
                           (effects (mix_channel s ! j))) @
                 (if 0 < playing (mix_channel s ! j) \<or> looping (mix_channel s ! j) \<noteq> 0
                  then (case channel_done_callback s of None \<Rightarrow> []
                        | Some f \<Rightarrow> [ChannelFinished f (int j)])
                  else [])) is)"
  using assms
proof (induction "is" arbitrary: s)
  case Nil
  then show ?case by simp
next
  case (Cons i "is")
  let ?calls = "\<lambda>s j.
      concat (map (\<lambda>e. case done_callback e of None \<Rightarrow> []
                         | Some d \<Rightarrow> [EffectDone d (int j) (udata e)])
                (effects (mix_channel s ! j))) @
      (if 0 < playing (mix_channel s ! j) \<or> looping (mix_channel s ! j) \<noteq> 0
       then (case channel_done_callback s of None \<Rightarrow> []
             | Some f \<Rightarrow> [ChannelFinished f (int j)])
       else [])"
  from Cons.prems have i: "i < length (mix_channel s)" by simp
  from stop_channel_valid [OF i] stop_channel_events [OF i]
  obtain s1 where s1: "Mix_HaltChannel (fst (Mix_UnregisterAllEffects s (int i))) (int i) = Inr s1"
    "length (mix_channel s1) = length (mix_channel s)"
    "\<forall>j. j \<noteq> i \<longrightarrow> mix_channel s1 ! j = mix_channel s ! j"
    "channel_done_callback s1 = channel_done_callback s"
    "events s1 = events s @ ?calls s i"
    by auto
  have rest: "\<forall>i\<in>set is. i < length (mix_channel s1)"
    using Cons.prems(1) s1(2) by simp
  have dist: "distinct is"
    using Cons.prems(2) by simp
  from Cons.IH [OF rest dist] obtain s' where s': "stop_channels s1 is = Inr s'"
    "channel_done_callback s' = channel_done_callback s1"
    "events s' = events s1 @ concat (map (?calls s1) is)"
    by blast
  have same: "map (?calls s1) is = map (?calls s) is"
  proof (rule map_cong [OF refl])
    fix j assume "j \<in> set is"
    then have "j \<noteq> i" using Cons.prems(2) by auto
    then have "mix_channel s1 ! j = mix_channel s ! j" using s1(3) by simp
    then show "?calls s1 j = ?calls s j" using s1(4) by simp
  qed
  have run: "stop_channels s (i # is) = Inr s'"
    using s1(1) s'(1) by simp
  have ev: "events s' = events s @ concat (map (?calls s) (i # is))"
    using s'(3) s1(5) same by simp
  show ?case
    using run s'(2) s1(4) ev by (intro exI [of _ s']) simp
qed

text \<open>
  C6, as the claim states it, fails when the registry is shrunk: the discarded channels
  are stopped before the allocation is tried. With channel 5 playing and carrying an
  effect, a failed \<open>allocate_channels(4)\<close> reports the error and returns the old count 8,
  but channel 5 is no longer playing and its effect has been released.
\<close>
theorem allocate_shrink_failure_counterexample:
  "Mix_Playing demo_upper_playing 5 = Inr 1 \<and>
   length (effects (mix_channel demo_upper_playing ! 5)) = 1 \<and>
   result_of (Mix_AllocateChannels demo_upper_playing 4 False) = Some 8 \<and>
   sdl_error (state_of (Mix_AllocateChannels demo_upper_playing 4 False)) = ''Channel allocation failed'' \<and>
   Mix_Playing (state_of (Mix_AllocateChannels demo_upper_playing 4 False)) 5 = Inr 0 \<and>
   effects (mix_channel (state_of (Mix_AllocateChannels demo_upper_playing 4 False)) ! 5) = [] \<and>
   events (state_of (Mix_AllocateChannels demo_upper_playing 4 False)) = [EffectDone 21 5 100]"
  by (simp add: demo_upper_playing_def Mix_RegisterEffect_def Mix_register_effect_def set_error_def
      Mix_AllocateChannels_def Mix_UnregisterAllEffects_def Mix_HaltChannel_def
      Mix_HaltChannel_locked_def halt_channel_def channel_done_playing_def
      Mix_remove_all_effects_def MIX_CHANNEL_POST_def result_of_def demo_defs call_defs)

text \<open>
  C6, amended. If \<open>allocate_channels(n)\<close> fails to allocate the new channel array (\<open>n\<close> is
  positive and differs from the channel count), the error is reported and the return
  value is the unchanged channel count. When \<open>n\<close> is above the count, the operation is a
  no-op: the state is the one before the call but for the error message. When \<open>n\<close> is
  below the count, every channel below \<open>n\<close> is exactly as before the call, and the
  channels from \<open>n\<close> on have been stopped before the allocation was tried: in index order,
  for each of them, the release callback of every effect of the channel that has one was
  called once, in chain order, with the channel and the effect's user data, and then the
  finished-callback, if one is installed, was called once if the channel was playing;
  nothing else was called. After the call these channels are not playing, and have no
  effect, fade or expiry.
\<close>
theorem allocate_channels_failure:
  assumes "0 < numchans" and "numchans \<noteq> num_channels s"
  shows "\<exists>s'. Mix_AllocateChannels s numchans False = Inr (s', num_channels s) \<and>
           sdl_error s' = ''Channel allocation failed'' \<and>
           num_channels s' = num_channels s \<and>
           (num_channels s < numchans \<longrightarrow> s' = s\<lparr>sdl_error := ''Channel allocation failed''\<rparr>) \<and>
           (numchans < num_channels s \<longrightarrow>
              (\<forall>j<length (mix_channel s).
                 (int j < numchans \<longrightarrow> mix_channel s' ! j = mix_channel s ! j) \<and>
                 (numchans \<le> int j \<longrightarrow>
                    \<not> chan_playing (mix_channel s' ! j) \<and> effects (mix_channel s' ! j) = [] \<and>
                    fading (mix_channel s' ! j) = MIX_NO_FADING \<and> expire (mix_channel s' ! j) = 0)) \<and>
              events s' = events s @
                concat (map (\<lambda>j.
                    concat (map (\<lambda>e. case done_callback e of None \<Rightarrow> []
                                       | Some d \<Rightarrow> [EffectDone d (int j) (udata e)])
                              (effects (mix_channel s ! j))) @
                    (if 0 < playing (mix_channel s ! j) \<or> looping (mix_channel s ! j) \<noteq> 0
                     then (case channel_done_callback s of None \<Rightarrow> []
                           | Some f \<Rightarrow> [ChannelFinished f (int j)])
                     else []))
                  [nat numchans..<length (mix_channel s)]))"
proof (cases "numchans < num_channels s")
  case False
  with assms have "num_channels s < numchans" by simp
  moreover have "num_channels (s\<lparr>sdl_error := ''Channel allocation failed''\<rparr>) = num_channels s"
    by (simp add: num_channels_def)
  ultimately show ?thesis
    using assms by (simp add: Mix_AllocateChannels_def)
next
  case True
  let ?is = "[nat numchans..<length (mix_channel s)]"
  let ?calls = "\<lambda>j.
      concat (map (\<lambda>e. case done_callback e of None \<Rightarrow> []
                         | Some d \<Rightarrow> [EffectDone d (int j) (udata e)])
                (effects (mix_channel s ! j))) @
      (if 0 < playing (mix_channel s ! j) \<or> looping (mix_channel s ! j) \<noteq> 0
       then (case channel_done_callback s of None \<Rightarrow> []
             | Some f \<Rightarrow> [ChannelFinished f (int j)])
       else [])"
  have valid: "\<forall>i\<in>set ?is. i < length (mix_channel s)"
    by simp
  have dist: "distinct ?is"
    by simp
  from stop_channels_valid [OF valid] obtain s1 where s1: "stop_channels s ?is = Inr s1"
    "length (mix_channel s1) = length (mix_channel s)" "sdl_error s1 = sdl_error s"
    "\<forall>j. j \<notin> set ?is \<longrightarrow> mix_channel s1 ! j = mix_channel s ! j"
    "\<forall>j\<in>set ?is. \<not> chan_playing (mix_channel s1 ! j) \<and> effects (mix_channel s1 ! j) = [] \<and>
        fading (mix_channel s1 ! j) = MIX_NO_FADING \<and> expire (mix_channel s1 ! j) = 0"
    by blast
  from stop_channels_events [OF valid dist] s1(1)
  have ev1: "events s1 = events s @ concat (map ?calls ?is)"
    by auto
  let ?s' = "s1\<lparr>sdl_error := ''Channel allocation failed''\<rparr>"
  have n1: "num_channels s1 = num_channels s"
    using s1(2) by (simp add: num_channels_def)
  have run: "Mix_AllocateChannels s numchans False = Inr (?s', num_channels s)"
    using assms True s1(1) n1 by (simp add: Mix_AllocateChannels_def)
  have chans: "\<forall>j<length (mix_channel s).
      (int j < numchans \<longrightarrow> mix_channel ?s' ! j = mix_channel s ! j) \<and>
      (numchans \<le> int j \<longrightarrow>
         \<not> chan_playing (mix_channel ?s' ! j) \<and> effects (mix_channel ?s' ! j) = [] \<and>
         fading (mix_channel ?s' ! j) = MIX_NO_FADING \<and> expire (mix_channel ?s' ! j) = 0)"
  proof (intro allI impI conjI)
    fix j assume j: "j < length (mix_channel s)" and low: "int j < numchans"
    then have "j \<notin> set ?is" by simp
    then show "mix_channel ?s' ! j = mix_channel s ! j"
      using s1(4) by simp
  next
    fix j assume j: "j < length (mix_channel s)" and high: "numchans \<le> int j"
    then have mem: "j \<in> set ?is" by simp
    from s1(5) mem have st: "\<not> chan_playing (mix_channel s1 ! j) \<and> effects (mix_channel s1 ! j) = [] \<and>
        fading (mix_channel s1 ! j) = MIX_NO_FADING \<and> expire (mix_channel s1 ! j) = 0"
      by blast
    from st show "\<not> chan_playing (mix_channel ?s' ! j)" by simp
    from st show "effects (mix_channel ?s' ! j) = []" by simp
    from st show "fading (mix_channel ?s' ! j) = MIX_NO_FADING" by simp
    from st show "expire (mix_channel ?s' ! j) = 0" by simp
  qed
  have ev: "events ?s' = events s @ concat (map ?calls ?is)"
    using ev1 by simp
  show ?thesis
    using run n1 chans ev True by (intro exI [of _ ?s']) (simp add: num_channels_def)
qed

theorem allocate_channels_failure_witness:
  "(0::int) < 4 \<and> 4 \<noteq> num_channels demo_upper_playing_cb \<and>
   4 < num_channels demo_upper_playing_cb \<and>
   Mix_Playing demo_upper_playing_cb 5 = Inr 1 \<and>
   (\<exists>s'. Mix_AllocateChannels demo_upper_playing_cb 4 False = Inr (s', 8) \<and>
      sdl_error s' = ''Channel allocation failed'' \<and>
      num_channels s' = 8 \<and>
      mix_channel s' ! 3 = mix_channel demo_upper_playing_cb ! 3 \<and>
      \<not> chan_playing (mix_channel s' ! 5) \<and> effects (mix_channel s' ! 5) = [] \<and>
      events s' = [EffectDone 21 5 100, ChannelFinished 7 5]) \<and>
   (0::int) < 16 \<and> 16 \<noteq> num_channels demo_upper_playing_cb \<and>
   num_channels demo_upper_playing_cb < 16 \<and>
   Mix_AllocateChannels demo_upper_playing_cb 16 False =
     Inr (demo_upper_playing_cb\<lparr>sdl_error := ''Channel allocation failed''\<rparr>, 8)"
proof -
  have chans: "mix_channel demo_upper_playing_cb =
      [init_channel, init_channel, init_channel, init_channel, init_channel,
       init_channel\<lparr>chunk := Some 1, playing := 1000, samples := 4096, start_time := 5,
         effects := [\<lparr>callback = Some 11, done_callback = Some 21, udata = 100\<rparr>]\<rparr>,
       init_channel, init_channel]"
    by (simp add: demo_upper_playing_cb_def demo_upper_playing_def Mix_RegisterEffect_def
        Mix_register_effect_def set_error_def MIX_CHANNEL_POST_def demo_defs call_defs)
  have n: "num_channels demo_upper_playing_cb = 8"
    by (simp add: num_channels_def chans)
  have cb: "channel_done_callback demo_upper_playing_cb = Some 7"
    by (simp add: demo_upper_playing_cb_def)
  have ev: "events demo_upper_playing_cb = []"
    by (simp add: demo_upper_playing_cb_def demo_upper_playing_def Mix_RegisterEffect_def
        Mix_register_effect_def set_error_def MIX_CHANNEL_POST_def demo_defs call_defs)
  have pl: "Mix_Playing demo_upper_playing_cb 5 = Inr 1"
    by (simp add: Mix_Playing_def chan_access_def num_channels_def chan_playing_def chans
        init_channel_def)
  have h: "(0::int) < 4 \<and> 4 \<noteq> num_channels demo_upper_playing_cb"
    by (simp add: n)
  have h2: "(0::int) < 16 \<and> 16 \<noteq> num_channels demo_upper_playing_cb"
    by (simp add: n)
  have grow: "Mix_AllocateChannels demo_upper_playing_cb 16 False =
      Inr (demo_upper_playing_cb\<lparr>sdl_error := ''Channel allocation failed''\<rparr>, 8)"
    using h2 n allocate_channels_failure [of 16 demo_upper_playing_cb] by auto
  have shrink: "\<exists>s'. Mix_AllocateChannels demo_upper_playing_cb 4 False = Inr (s', 8) \<and>
      sdl_error s' = ''Channel allocation failed'' \<and>
      num_channels s' = 8 \<and>
      mix_channel s' ! 3 = mix_channel demo_upper_playing_cb ! 3 \<and>
      \<not> chan_playing (mix_channel s' ! 5) \<and> effects (mix_channel s' ! 5) = [] \<and>
      events s' = [EffectDone 21 5 100, ChannelFinished 7 5]"
    using h n allocate_channels_failure [of 4 demo_upper_playing_cb]
    by (auto simp: cb ev chans init_channel_def)
  show ?thesis
    using h h2 n pl grow shrink by simp
qed

subsection \<open>Fading out in the mixing callback\<close>

lemma channel_done_playing_volume [simp]:
  "volume (fst (channel_done_playing cb i c evs)) = volume c"
  by (simp add: channel_done_playing_def Mix_remove_all_effects_def)

lemma mix_play_loop_volume:
  "volume (fst (mix_play_loop cb master_vol i len ch c evs index vol)) = volume c"
proof (induction cb master_vol i len ch c evs index vol rule: mix_play_loop.induct)
  case (1 cb master_vol i len ch c evs index vol)
  show ?case
    apply (subst mix_play_loop.simps)
    using 1
    apply (simp add: Let_def)
    done
qed

lemma mix_loop_again_volume:
  "0 < alen ch \<Longrightarrow>
   \<exists>r. mix_loop_again i len ch vol c evs index = Inr r \<and> volume (fst r) = volume c"
proof (induction i len ch vol c evs index rule: mix_loop_again.induct)
  case (1 i len ch vol c evs index)
  show ?case
    apply (subst mix_loop_again.simps)
    using 1
    apply (auto simp add: Let_def)
    done
qed

lemma int_of_Uint64_small:
  assumes "uint w < 2 ^ 31"
  shows "int_of_Uint64 w = uint w"
proof -
  have nn: "0 \<le> uint w" by simp
  have u: "uint (ucast w :: 32 word) = uint w"
    using assms nn by (simp add: unsigned_ucast_eq take_bit_int_eq_self)
  have "sint (ucast w :: 32 word) = signed_take_bit 31 (uint w)"
    using u by (simp add: sint_uint)
  also have "\<dots> = uint w"
  proof (rule signed_take_bit_int_eq_self)
    have "- (2 ^ 31) \<le> (0::int)" by simp
    then show "- (2 ^ 31) \<le> uint w" using nn by (rule order_trans)
    show "uint w < 2 ^ 31" by (rule assms)
  qed
  finally show ?thesis
    by (simp add: int_of_Uint64_def)
qed

lemma fade_out_volume_value:
  fixes D t :: "64 word" and V0 :: int
  assumes "0 \<le> V0" and "V0 \<le> 128" and "uint D < 2 ^ 57" and "t < D"
  shows "int_of_Uint64 ((word_of_int V0 * (D - t)) div D) = V0 * (uint D - uint t) div uint D"
    and "0 \<le> V0 * (uint D - uint t) div uint D"
    and "V0 * (uint D - uint t) div uint D \<le> V0"
proof -
  have tD: "uint t < uint D"
    using assms(4) by (simp add: word_less_def)
  have t0: "0 \<le> uint t" by simp
  have sub: "uint (D - t) = uint D - uint t"
    using tD uint_sub_lem [of t D] by simp
  have v: "uint (word_of_int V0 :: 64 word) = V0"
    using assms(1,2) by (simp add: uint_word_of_int_eq take_bit_int_eq_self)
  have d57: "uint D - uint t < 2 ^ 57"
    using assms(3) t0 by linarith
  have "V0 * (uint D - uint t) \<le> 128 * (uint D - uint t)"
    using assms(2) tD by (intro mult_right_mono) simp_all
  also have "\<dots> < 128 * 2 ^ 57"
    using d57 by simp
  finally have bound: "V0 * (uint D - uint t) < 2 ^ 64"
    by simp
  have mul: "uint (word_of_int V0 * (D - t) :: 64 word) = V0 * (uint D - uint t)"
    using bound uint_mult_lem [of "word_of_int V0 :: 64 word" "D - t"] by (simp add: v sub)
  have quot: "uint ((word_of_int V0 * (D - t)) div D) = V0 * (uint D - uint t) div uint D"
    by (simp add: uint_div mul)
  have le: "V0 * (uint D - uint t) div uint D \<le> V0"
  proof -
    have "V0 * (uint D - uint t) \<le> V0 * uint D"
      using assms(1) t0 by (intro mult_left_mono) simp_all
    moreover have Dpos: "0 < uint D"
      using tD t0 by linarith
    ultimately have "V0 * (uint D - uint t) div uint D \<le> V0 * uint D div uint D"
      by (intro zdiv_mono1)
    also have "\<dots> = V0"
      using Dpos by simp
    finally show ?thesis .
  qed
  from le have small: "uint ((word_of_int V0 * (D - t)) div D) < 2 ^ 31"
    using quot assms(2) by simp
  show "int_of_Uint64 ((word_of_int V0 * (D - t)) div D) = V0 * (uint D - uint t) div uint D"
    using int_of_Uint64_small [OF small] quot by simp
  show "V0 * (uint D - uint t) div uint D \<le> V0"
    by (rule le)
  have num: "0 \<le> V0 * (uint D - uint t)"
    using assms(1) tD by simp
  have "0 < uint D"
    using tD t0 by linarith
  then show "0 \<le> V0 * (uint D - uint t) div uint D"
    using num by (simp add: pos_imp_zdiv_nonneg_iff)
qed

lemma mix_render_returns:
  assumes "0 < playing c \<longrightarrow> (\<exists>p ch. chunk c = Some p \<and> chs p = Some ch \<and> 0 < alen ch)"
  shows "\<exists>c' evs'. mix_render chs cb master_vol i len c evs = Inr (c', evs') \<and> volume c' = volume c"
proof (cases "0 < playing c")
  case False
  then show ?thesis by (simp add: mix_render_def)
next
  case True
  with assms obtain p ch where ch: "chunk c = Some p" "chs p = Some ch" "0 < alen ch"
    by blast
  obtain c1 evs1 index1 vol1 where
    l1: "mix_play_loop cb master_vol i len ch c evs 0 (mix_volume master_vol c ch) = (c1, evs1, index1, vol1)"
    by (cases "mix_play_loop cb master_vol i len ch c evs 0 (mix_volume master_vol c ch)") blast
  have v1: "volume c1 = volume c"
    using mix_play_loop_volume [of cb master_vol i len ch c evs 0 "mix_volume master_vol c ch"] l1
    by simp
  from mix_loop_again_volume [OF ch(3), of i len vol1 c1 evs1 index1]
  obtain r where r: "mix_loop_again i len ch vol1 c1 evs1 index1 = Inr r" "volume (fst r) = volume c1"
    by blast
  obtain c2 evs2 index2 where r2: "r = (c2, evs2, index2)"
    by (cases r) blast
  show ?thesis
    using True ch l1 r r2 v1 by (simp add: mix_render_def)
qed

lemma fade_step_early:
  assumes "\<not> (0 < expire c \<and> expire c < sdl_ticks)"
    and "fading c = MIX_FADING_OUT"
    and "0 \<le> fade_volume c" and "fade_volume c \<le> MIX_MAX_VOLUME"
    and "uint (fade_length c) < 2 ^ 57"
    and "sdl_ticks - ticks_fade c < fade_length c"
  shows "mix_fade_step cb i sdl_ticks c evs =
           (c\<lparr>volume := fade_volume c * (uint (fade_length c) - uint (sdl_ticks - ticks_fade c))
                            div uint (fade_length c)\<rparr>, evs)"
proof -
  let ?q = "fade_volume c * (uint (fade_length c) - uint (sdl_ticks - ticks_fade c))
              div uint (fade_length c)"
  have V: "fade_volume c \<le> 128"
    using assms(4) by (simp add: MIX_MAX_VOLUME_def)
  note q = fade_out_volume_value [OF assms(3) V assms(5) assms(6)]
  have qmax: "?q \<le> MIX_MAX_VOLUME"
    using q(3) assms(4) by simp
  show ?thesis
    using assms(1,2,6) q(1,2) qmax
    by (auto simp: mix_fade_step_def Let_def chan_set_volume_def)
qed

lemma fade_step_late:
  assumes "\<not> (0 < expire c \<and> expire c < sdl_ticks)"
    and "fading c = MIX_FADING_OUT"
    and "0 \<le> fade_volume_reset c" and "fade_volume_reset c \<le> MIX_MAX_VOLUME"
    and "fade_length c \<le> sdl_ticks - ticks_fade c"
  shows "mix_fade_step cb i sdl_ticks c evs =
           (c\<lparr>volume := fade_volume_reset c, playing := 0, looping := 0, expire := 0,
               effects := [], fading := MIX_NO_FADING\<rparr>,
            (case cb of None \<Rightarrow> evs | Some f \<Rightarrow> evs @ [ChannelFinished f i]) @
            done_events i (effects c))"
  using assms
  by (auto simp: mix_fade_step_def Let_def chan_set_volume_def channel_done_playing_def
      Mix_remove_all_effects_def)

text \<open>The callback as a whole works on each channel separately: when it returns, the channel
  at index \<open>k\<close> of the result is what the loop body returns for the channel at \<open>k\<close>. So a
  channel that is fading out is left by the whole callback as by its loop body.\<close>

lemma mix_channels_loop_nth:
  "mix_channels_loop chs cb master_vol len sdl_ticks i0 cs evs = Inr (cs', evs') \<Longrightarrow>
   length cs' = length cs \<and>
   (\<forall>k<length cs. \<exists>e1 e2.
       mix_one_channel chs cb master_vol len sdl_ticks (i0 + int k) (cs ! k) e1 = Inr (cs' ! k, e2))"
proof (induction cs arbitrary: i0 evs cs' evs')
  case Nil
  then show ?case by simp
next
  case (Cons c cs)
  from Cons.prems obtain c1 evs1 cs1 where
    one: "mix_one_channel chs cb master_vol len sdl_ticks i0 c evs = Inr (c1, evs1)"
    and rest: "mix_channels_loop chs cb master_vol len sdl_ticks (i0 + 1) cs evs1 = Inr (cs1, evs')"
    and res: "cs' = c1 # cs1"
    by (auto split: sum.splits)
  from Cons.IH [OF rest] have ih: "length cs1 = length cs"
    "\<forall>k<length cs. \<exists>e1 e2.
       mix_one_channel chs cb master_vol len sdl_ticks (i0 + 1 + int k) (cs ! k) e1 = Inr (cs1 ! k, e2)"
    by blast+
  have "\<forall>k<length (c # cs). \<exists>e1 e2.
       mix_one_channel chs cb master_vol len sdl_ticks (i0 + int k) ((c # cs) ! k) e1 = Inr (cs' ! k, e2)"
  proof (intro allI impI)
    fix k assume k: "k < length (c # cs)"
    show "\<exists>e1 e2. mix_one_channel chs cb master_vol len sdl_ticks (i0 + int k) ((c # cs) ! k) e1 =
        Inr (cs' ! k, e2)"
    proof (cases k)
      case 0
      then show ?thesis using one res by auto
    next
      case (Suc j)
      then have "j < length cs" using k by simp
      with ih(2) obtain e1 e2 where
        "mix_one_channel chs cb master_vol len sdl_ticks (i0 + 1 + int j) (cs ! j) e1 = Inr (cs1 ! j, e2)"
        by blast
      then show ?thesis using Suc res by (auto simp: add.assoc)
    qed
  qed
  then show ?case using ih(1) res by simp
qed

lemma fade_out_in_callback:
  assumes run: "mix_channels s True len sdl_ticks = Inr s'"
    and k: "k < length (mix_channel s)"
    and c: "c = mix_channel s ! k"
    and "paused c = 0"
    and "\<not> (0 < expire c \<and> expire c < sdl_ticks)"
    and "fading c = MIX_FADING_OUT"
    and "0 \<le> fade_volume c" and "fade_volume c \<le> MIX_MAX_VOLUME"
    and "0 \<le> fade_volume_reset c" and "fade_volume_reset c \<le> MIX_MAX_VOLUME"
    and "uint (fade_length c) < 2 ^ 57"
    and "0 < playing c \<longrightarrow> (\<exists>p ch. chunk c = Some p \<and> chunks s p = Some ch \<and> 0 < alen ch)"
  shows "(sdl_ticks - ticks_fade c < fade_length c \<longrightarrow>
            volume (mix_channel s' ! k) =
              fade_volume c * (uint (fade_length c) - uint (sdl_ticks - ticks_fade c))
                div uint (fade_length c)) \<and>
         (fade_length c \<le> sdl_ticks - ticks_fade c \<longrightarrow>
            mix_channel s' ! k =
              c\<lparr>volume := fade_volume_reset c, playing := 0, looping := 0, expire := 0,
                 effects := [], fading := MIX_NO_FADING\<rparr>)"
proof -
  from run obtain cs' evs' where
    loop: "mix_channels_loop (chunks s) (channel_done_callback s) (master_volume s) len sdl_ticks 0
             (mix_channel s) (events s) = Inr (cs', evs')"
    and s': "mix_channel s' = cs'"
    by (auto simp: mix_channels_def split: sum.splits)
  from mix_channels_loop_nth [OF loop] k c obtain e1 e2 where
    one: "mix_one_channel (chunks s) (channel_done_callback s) (master_volume s) len sdl_ticks
            (int k) c e1 = Inr (cs' ! k, e2)"
    by auto
  show ?thesis
  proof (intro conjI impI)
    let ?q = "fade_volume c * (uint (fade_length c) - uint (sdl_ticks - ticks_fade c))
                div uint (fade_length c)"
    assume lt: "sdl_ticks - ticks_fade c < fade_length c"
    have pre: "0 < playing (c\<lparr>volume := ?q\<rparr>) \<longrightarrow>
        (\<exists>p ch. chunk (c\<lparr>volume := ?q\<rparr>) = Some p \<and> chunks s p = Some ch \<and> 0 < alen ch)"
      using assms(12) by simp
    from mix_render_returns [OF pre, of "channel_done_callback s" "master_volume s" "int k" len e1]
    obtain c' evs1 where r: "mix_render (chunks s) (channel_done_callback s) (master_volume s)
        (int k) len (c\<lparr>volume := ?q\<rparr>) e1 = Inr (c', evs1)" "volume c' = ?q"
      by auto
    have "mix_one_channel (chunks s) (channel_done_callback s) (master_volume s) len sdl_ticks
        (int k) c e1 = Inr (c', evs1)"
      using assms(4) r(1)
        fade_step_early [OF assms(5,6,7,8,11) lt, of "channel_done_callback s" "int k" e1]
      by (simp add: mix_one_channel_def)
    with one have "cs' ! k = c'" by simp
    then show "volume (mix_channel s' ! k) = ?q"
      using r(2) s' by simp
  next
    assume ge: "fade_length c \<le> sdl_ticks - ticks_fade c"
    have "mix_one_channel (chunks s) (channel_done_callback s) (master_volume s) len sdl_ticks
        (int k) c e1 =
        Inr (c\<lparr>volume := fade_volume_reset c, playing := 0, looping := 0, expire := 0,
                effects := [], fading := MIX_NO_FADING\<rparr>,
             (case channel_done_callback s of None \<Rightarrow> e1 | Some f \<Rightarrow> e1 @ [ChannelFinished f (int k)]) @
             done_events (int k) (effects c))"
      using assms(4)
        fade_step_late [OF assms(5,6,9,10) ge, of "channel_done_callback s" "int k" e1]
      by (simp add: mix_one_channel_def mix_render_def)
    with one show "mix_channel s' ! k =
        c\<lparr>volume := fade_volume_reset c, playing := 0, looping := 0, expire := 0,
           effects := [], fading := MIX_NO_FADING\<rparr>"
      using s' by simp
  qed
qed

text \<open>A duration that comes from a negative \<^verbatim>\<open>int\<close> is a \<^verbatim>\<open>Uint64\<close> close to \<open>2^64\<close>, and
  the product of the source wraps around: with fade volume 128 and fade length \<open>2^64 - 1\<close>
  the volume computed at elapsed time 0 is 0.\<close>

lemma fade_out_product_wraps:
  "mix_fade_step None 0 10
     (init_channel\<lparr>fading := MIX_FADING_OUT, fade_volume := 128, fade_length := - 1, ticks_fade := 10\<rparr>)
     [] =
   (init_channel\<lparr>fading := MIX_FADING_OUT, fade_volume := 128, fade_length := - 1, ticks_fade := 10,
                  volume := 0\<rparr>, [])"
  by (simp add: mix_fade_step_def init_channel_def chan_set_volume_def int_of_Uint64_def
      MIX_MAX_VOLUME_def)

text \<open>The expiry of a channel is checked before its fade. A channel that expires while it
  fades out is stopped by the expiry branch, which does not touch the volume: here the
  volume stays at 64, where the fade had brought it, and is not set back to 128.\<close>

lemma fade_out_expired_keeps_volume:
  "volume (mix_channel demo_expiring ! 0) = 64 \<and>
   fade_volume_reset (mix_channel demo_expiring ! 0) = 128 \<and>
   expire (mix_channel demo_expiring ! 0) = 105 \<and>
   fading (mix_channel demo_expiring ! 0) = MIX_FADING_OUT \<and>
   volume (mix_channel (mixed_state demo_expiring (mix_channels demo_expiring True 64 200)) ! 0) = 64 \<and>
   fading (mix_channel (mixed_state demo_expiring (mix_channels demo_expiring True 64 200)) ! 0) =
     MIX_NO_FADING \<and>
   Mix_Playing (mixed_state demo_expiring (mix_channels demo_expiring True 64 200)) 0 = Inr 0"
  by (simp add: demo_expiring_def demo_defs call_defs mix_defs MIX_MAX_VOLUME_def
      chan_set_volume_def int_of_Uint64_def)




end
